theory Spec2Isabelle
  imports Main
begin

section \<open>The batch runner \<open>generic_processor\<close> of examples/generic_processor.py\<close>

text \<open>
  The source is one Python function:
  \<^verbatim>\<open>
  def generic_processor(map_func, result_func, outpath, paths, batch_size=1000):
      f = bz2.BZ2File(outpath, "w")
      n = 0
      m = math.ceil(float(len(paths))/batch_size)
      logging.info("Script started")
      while (True):
          start = time.time()
          batch, paths = (paths[:batch_size], paths[batch_size:])
          n += 1
          logging.info("Starting batch {0}/{1}".format(n, m))
          feature_reader = FeatureReader(batch)
          results = feature_reader.multiprocessing(map_func)
          result_func(results, f)
          logging.info("Batch of {0} volumes finished in in {1}s".format(
              len(batch), time.time() - start))
          logging.debug("Output filesize is currently: {0}Gb".format(
              os.stat(outpath).st_size/(1024**3)))
          if len(paths) == 0:
              break
      logging.info("Script done")
      f.close()
  \<close>
  It is embedded as a state-passing function over a world that holds the Python list
  objects (a store addressed by reference, since the function receives its list by
  reference and rebinds a local name to fresh slices), the payload of every file, and
  the sequence of calls the function has made. The loop may run forever, so it is a
  partial function into \<open>option\<close>: \<open>None\<close> is a run that never returns.
\<close>

subsection \<open>Python slicing\<close>

text \<open>
  \<open>xs[:k]\<close> and \<open>xs[k:]\<close> for an integer \<open>k\<close>: a negative bound counts from the end of
  the list and is clamped at the front, a bound beyond the end is clamped at the end.
  Both build a new list object.
\<close>

definition slice_to :: "int \<Rightarrow> 'a list \<Rightarrow> 'a list" where
  "slice_to k xs = (if 0 \<le> k then take (nat k) xs else take (length xs - nat (- k)) xs)"

definition slice_from :: "int \<Rightarrow> 'a list \<Rightarrow> 'a list" where
  "slice_from k xs = (if 0 \<le> k then drop (nat k) xs else drop (length xs - nat (- k)) xs)"

subsection \<open>Exceptions, calls and the world\<close>

text \<open>
  The function raises nothing of its own except the two errors of the division
  \<open>float(len(paths))/batch_size\<close>: \<open>OverflowError\<close> when \<open>batch_size\<close> is too large in
  magnitude to be converted to a float, \<open>ZeroDivisionError\<close> when it is 0. Every other
  exception comes out of a collaborator and passes through unchanged, there being no
  \<open>try\<close> in the source. Failures of the
  file system itself (of the open, of \<open>os.stat\<close>, of the close) and of the logger are
  outside the model.
\<close>

datatype 'e exn = OverflowError | ZeroDivisionError | Collaborator 'e

text \<open>
  One event per call the function makes, in program order. The batch counter \<open>n\<close> of
  the source labels the calls of an iteration. The elapsed time and the file size
  that the two last log lines print are readings of the clock and of the file system
  and are left out of the events.
\<close>

datatype ('a, 'r) event =
    BZ2File_open string
  | Info_script_started
  | Info_starting_batch nat int
  | FeatureReader_multiprocessing nat "'a list"
  | Result_func nat 'r
  | Info_batch_finished nat
  | Debug_filesize string
  | Info_script_done
  | BZ2File_close

record ('a, 'r) world =
  heap :: "'a list list"
  files :: "string \<rightharpoonup> string"
  trace :: "('a, 'r) event list"

datatype ('e, 'w) outcome = Returned 'w | Raised "'e exn" 'w

definition emit :: "('a, 'r) event list \<Rightarrow> ('a, 'r) world \<Rightarrow> ('a, 'r) world" where
  "emit es w = w\<lparr>trace := trace w @ es\<rparr>"

text \<open>The payload written so far through the file object opened on a path.\<close>

definition sink :: "('a, 'r) world \<Rightarrow> string \<Rightarrow> string" where
  "sink w p = (case files w p of None \<Rightarrow> [] | Some c \<Rightarrow> c)"

subsection \<open>The collaborators\<close>

text \<open>
  \<open>FeatureReader(batch).multiprocessing(map_func)\<close> is code of the feature-reader
  library: it is a parameter. It receives the batch object by reference, so besides
  its result (the results collection, or the exception it raises) it yields the
  content it leaves in that object. \<open>result_func(results, f)\<close> is supplied by the
  caller: from the results and the payload of \<open>f\<close> it yields the exception it raises,
  if any, and the payload it leaves.
\<close>

type_synonym ('a, 'm, 'e, 'r) reader = "'a list \<Rightarrow> 'm \<Rightarrow> ('e + 'r) \<times> 'a list"

type_synonym ('e, 'r) reducer = "'r \<Rightarrow> string \<Rightarrow> 'e option \<times> string"

subsection \<open>The loop\<close>

text \<open>
  One pass through the body of \<open>while (True)\<close>, up to the test \<open>len(paths) == 0\<close>.
  \<open>paths\<close> is a reference into the heap; the two slices are allocated at the next two
  free addresses and the local names \<open>batch\<close> and \<open>paths\<close> are bound to them. The result
  is the exception that ends the run, or the new values of \<open>n\<close> and \<open>paths\<close> with the
  new world.
\<close>

definition loop_body ::
  "('a, 'm, 'e, 'r) reader \<Rightarrow> 'm \<Rightarrow> ('e, 'r) reducer \<Rightarrow> string \<Rightarrow> int \<Rightarrow> int \<Rightarrow>
   nat \<Rightarrow> nat \<Rightarrow> ('a, 'r) world \<Rightarrow>
   ('e, ('a, 'r) world) outcome + (nat \<times> nat \<times> ('a, 'r) world)" where
  "loop_body multiprocessing map_func result_func outpath batch_size m n paths w =
     (let xs = heap w ! paths;
          batch = length (heap w);
          paths' = Suc batch;
          w1 = w\<lparr>heap := heap w @ [slice_to batch_size xs, slice_from batch_size xs]\<rparr>;
          n' = n + 1;
          w2 = emit [Info_starting_batch n' m,
                     FeatureReader_multiprocessing n' (heap w1 ! batch)] w1
      in case multiprocessing (heap w2 ! batch) map_func of
           (res, b') \<Rightarrow>
             let w3 = w2\<lparr>heap := (heap w2)[batch := b']\<rparr> in
             (case res of
                Inl e \<Rightarrow> Inl (Raised (Collaborator e) w3)
              | Inr results \<Rightarrow>
                  let w4 = emit [Result_func n' results] w3 in
                  (case result_func results (sink w4 outpath) of
                     (err, c') \<Rightarrow>
                       let w5 = w4\<lparr>files := (files w4)(outpath \<mapsto> c')\<rparr> in
                       (case err of
                          Some e \<Rightarrow> Inl (Raised (Collaborator e) w5)
                        | None \<Rightarrow>
                            Inr (n', paths',
                                 emit [Info_batch_finished (length (heap w5 ! batch)),
                                       Debug_filesize outpath] w5)))))"

partial_function (option) batch_loop ::
  "('a, 'm, 'e, 'r) reader \<Rightarrow> 'm \<Rightarrow> ('e, 'r) reducer \<Rightarrow> string \<Rightarrow> int \<Rightarrow> int \<Rightarrow>
   nat \<Rightarrow> nat \<Rightarrow> ('a, 'r) world \<Rightarrow> ('e, ('a, 'r) world) outcome option" where
  "batch_loop multiprocessing map_func result_func outpath batch_size m n paths w =
     (case loop_body multiprocessing map_func result_func outpath batch_size m n paths w of
        Inl out \<Rightarrow> Some out
      | Inr (n', paths', w') \<Rightarrow>
          if length (heap w' ! paths') = 0 then Some (Returned w')
          else batch_loop multiprocessing map_func result_func outpath batch_size m
                 n' paths' w')"

declare batch_loop.simps [code]

subsection \<open>The function\<close>

text \<open>
  The division \<open>float(len(paths))/batch_size\<close> is a float division: it first converts
  the integer \<open>batch_size\<close> to a float. The conversion rounds to the nearest double,
  ties to even, and raises \<open>OverflowError\<close> (int too large to convert to float) when
  the result would be \<open>2 ^ 1024\<close>; the largest double being \<open>2 ^ 1024 - 2 ^ 971\<close>, that
  is so from the magnitude \<open>2 ^ 1024 - 2 ^ 970\<close> on.
\<close>

definition float_overflows :: "int \<Rightarrow> bool" where
  "float_overflows k = (2 ^ 1024 - 2 ^ 970 \<le> \<bar>k\<bar>)"

text \<open>
  \<open>math.ceil(float(len(paths))/batch_size)\<close>, for a \<open>batch_size\<close> that converts and is
  not 0; \<open>generic_processor\<close> below tests both before it calls \<open>total_batches\<close>, the
  division raising \<open>ZeroDivisionError\<close> for 0. For a list of fewer than \<open>2 ^ 52\<close>
  elements the float quotient rounds to the same ceiling as the exact one, which is
  what is written here; the value is used in a log line only.
\<close>

definition total_batches :: "nat \<Rightarrow> int \<Rightarrow> int" where
  "total_batches len batch_size = - ((- int len) div batch_size)"

definition generic_processor ::
  "('a, 'm, 'e, 'r) reader \<Rightarrow> 'm \<Rightarrow> ('e, 'r) reducer \<Rightarrow> string \<Rightarrow> nat \<Rightarrow> int \<Rightarrow>
   ('a, 'r) world \<Rightarrow> ('e, ('a, 'r) world) outcome option" where
  "generic_processor multiprocessing map_func result_func outpath paths batch_size w =
     (let w0 = emit [BZ2File_open outpath] (w\<lparr>files := (files w)(outpath \<mapsto> [])\<rparr>);
          n = 0
      in if float_overflows batch_size then Some (Raised OverflowError w0)
         else if batch_size = 0 then Some (Raised ZeroDivisionError w0)
         else
           let m = total_batches (length (heap w0 ! paths)) batch_size;
               w1 = emit [Info_script_started] w0
           in case batch_loop multiprocessing map_func result_func outpath batch_size m
                     n paths w1 of
                None \<Rightarrow> None
              | Some (Raised e w2) \<Rightarrow> Some (Raised e w2)
              | Some (Returned w2) \<Rightarrow>
                  Some (Returned (emit [Info_script_done, BZ2File_close] w2)))"

text \<open>The call that leaves \<open>batch_size\<close> to its default.\<close>

definition generic_processor_default ::
  "('a, 'm, 'e, 'r) reader \<Rightarrow> 'm \<Rightarrow> ('e, 'r) reducer \<Rightarrow> string \<Rightarrow> nat \<Rightarrow>
   ('a, 'r) world \<Rightarrow> ('e, ('a, 'r) world) outcome option" where
  "generic_processor_default multiprocessing map_func result_func outpath paths w =
     generic_processor multiprocessing map_func result_func outpath paths 1000 w"

subsection \<open>Reading an outcome and a trace\<close>

fun world_of :: "('e, 'w) outcome \<Rightarrow> 'w" where
  "world_of (Returned w) = w"
| "world_of (Raised e w) = w"

fun returned :: "('e, 'w) outcome option \<Rightarrow> bool" where
  "returned (Some (Returned w)) = True"
| "returned _ = False"

fun raised :: "('e, 'w) outcome option \<Rightarrow> 'e exn option" where
  "raised (Some (Raised e w)) = Some e"
| "raised _ = None"

text \<open>The calls made during a run that started in world \<open>w\<close> and ended in world \<open>w'\<close>.\<close>

definition run_events :: "('a, 'r) world \<Rightarrow> ('a, 'r) world \<Rightarrow> ('a, 'r) event list" where
  "run_events w w' = drop (length (trace w)) (trace w')"

text \<open>The batches handed to the parallel map, in the order of the calls.\<close>

fun batches :: "('a, 'r) event list \<Rightarrow> 'a list list" where
  "batches [] = []"
| "batches (FeatureReader_multiprocessing n b # es) = b # batches es"
| "batches (e # es) = batches es"

text \<open>The batch numbers of those calls.\<close>

fun batch_numbers :: "('a, 'r) event list \<Rightarrow> nat list" where
  "batch_numbers [] = []"
| "batch_numbers (FeatureReader_multiprocessing n b # es) = n # batch_numbers es"
| "batch_numbers (e # es) = batch_numbers es"

text \<open>The result collections handed to \<open>result_func\<close>, in the order of the calls.\<close>

fun reduced :: "('a, 'r) event list \<Rightarrow> 'r list" where
  "reduced [] = []"
| "reduced (Result_func n r # es) = r # reduced es"
| "reduced (e # es) = reduced es"

text \<open>The payload that a sequence of \<open>result_func\<close> calls leaves, starting from \<open>c\<close>.\<close>

definition written :: "('e, 'r) reducer \<Rightarrow> 'r list \<Rightarrow> string \<Rightarrow> string" where
  "written result_func rs c = foldl (\<lambda>c r. snd (result_func r c)) c rs"

fun opens_or_closes :: "('a, 'r) event \<Rightarrow> bool" where
  "opens_or_closes (BZ2File_open p) = True"
| "opens_or_closes BZ2File_close = True"
| "opens_or_closes _ = False"

text \<open>
  The two collaborator calls of a pass, by batch number, and the sequence of them
  that a trace holds.
\<close>

datatype call = Map_call nat | Reduce_call nat

fun calls :: "('a, 'r) event list \<Rightarrow> call list" where
  "calls [] = []"
| "calls (FeatureReader_multiprocessing n b # es) = Map_call n # calls es"
| "calls (Result_func n r # es) = Reduce_call n # calls es"
| "calls (e # es) = calls es"

text \<open>
  The calls of the complete passes numbered from \<open>i\<close> up to, but not including, \<open>j\<close>:
  one call of the reader, then one of \<open>result_func\<close>, pass after pass.
\<close>

definition passes :: "nat \<Rightarrow> nat \<Rightarrow> call list" where
  "passes i j = concat (map (\<lambda>k. [Map_call k, Reduce_call k]) [i..<j])"

text \<open>
  The batch of pass \<open>k + 1\<close>: \<open>paths[:batch_size]\<close> after \<open>paths = paths[batch_size:]\<close> has
  been executed \<open>k\<close> times on the list \<open>xs\<close>.
\<close>

definition nth_batch :: "int \<Rightarrow> 'a list \<Rightarrow> nat \<Rightarrow> 'a list" where
  "nth_batch batch_size xs k = slice_to batch_size ((slice_from batch_size ^^ k) xs)"

text \<open>
  The payload of the sink once the first \<open>k\<close> batches of \<open>xs\<close> have been mapped and
  reduced, starting from the empty file; \<open>None\<close> if the reader or \<open>result_func\<close> raises
  on one of them.
\<close>

fun sink_after ::
  "('a, 'm, 'e, 'r) reader \<Rightarrow> 'm \<Rightarrow> ('e, 'r) reducer \<Rightarrow> int \<Rightarrow> 'a list \<Rightarrow> nat \<Rightarrow>
   string option" where
  "sink_after multiprocessing map_func result_func batch_size xs 0 = Some []"
| "sink_after multiprocessing map_func result_func batch_size xs (Suc k) =
     (case sink_after multiprocessing map_func result_func batch_size xs k of
        None \<Rightarrow> None
      | Some c \<Rightarrow>
          (case multiprocessing (nth_batch batch_size xs k) map_func of
             (Inl e, b') \<Rightarrow> None
           | (Inr results, b') \<Rightarrow>
               (case result_func results c of
                  (Some e, c') \<Rightarrow> None
                | (None, c') \<Rightarrow> Some c')))"

subsection \<open>Example inputs\<close>

text \<open>
  A reader that fails on the identifier \<open>0\<close> and otherwise maps every identifier of the
  batch, emptying the batch object it was given; a reducer that appends the results
  and a separator; a world whose only list object is the caller's list and in which
  the output file already exists.
\<close>

definition example_map_func :: "nat \<Rightarrow> string" where
  "example_map_func i = (if even i then ''e'' else ''o'')"

definition example_reader :: "(nat, nat \<Rightarrow> string, string, string) reader" where
  "example_reader batch map_func =
     (if 0 \<in> set batch then (Inl ''unreadable'', batch)
      else (Inr (concat (map map_func batch)), []))"

definition example_total_reader :: "(nat, nat \<Rightarrow> string, string, string) reader" where
  "example_total_reader batch map_func = (Inr (concat (map map_func batch)), [])"

definition example_reducer :: "(string, string) reducer" where
  "example_reducer results c = (None, c @ results @ ''|'')"

definition example_world :: "nat list \<Rightarrow> (nat, string) world" where
  "example_world xs = \<lparr>heap = [xs], files = [''out.bz2'' \<mapsto> ''old''], trace = []\<rparr>"

definition example_run :: "nat list \<Rightarrow> int \<Rightarrow> (string, (nat, string) world) outcome option" where
  "example_run xs batch_size =
     generic_processor example_reader example_map_func example_reducer ''out.bz2'' 0
       batch_size (example_world xs)"

section \<open>Properties of one pass and of the loop\<close>

subsection \<open>Slices\<close>

lemma slice_append: "slice_to k xs @ slice_from k xs = xs"
  by (simp add: slice_to_def slice_from_def)

lemma slice_to_pos: "0 \<le> k \<Longrightarrow> slice_to k xs = take (nat k) xs"
  by (simp add: slice_to_def)

lemma slice_from_pos: "0 \<le> k \<Longrightarrow> slice_from k xs = drop (nat k) xs"
  by (simp add: slice_from_def)

lemma slice_from_neg: "k < 0 \<Longrightarrow> xs \<noteq> [] \<Longrightarrow> slice_from k xs \<noteq> []"
  by (cases xs) (auto simp: slice_from_def)

lemma slice_from_shorter:
  assumes "1 \<le> k" and "slice_from k xs \<noteq> []"
  shows "length (slice_from k xs) < length xs"
proof -
  from assms(1) have "slice_from k xs = drop (nat k) xs" and "0 < nat k"
    by (simp_all add: slice_from_def)
  with assms(2) show ?thesis by (cases xs) auto
qed

lemma slice_Nil: "slice_to k [] = []" "slice_from k [] = []"
  by (simp_all add: slice_to_def slice_from_def)

subsection \<open>One pass\<close>

lemma loop_body_eq:
  "loop_body mp mf rf outpath B m n p w =
     (let batch = slice_to B (heap w ! p); rest = slice_from B (heap w ! p);
          ev1 = [Info_starting_batch (Suc n) m, FeatureReader_multiprocessing (Suc n) batch]
      in case mp batch mf of
           (Inl e, b') \<Rightarrow>
             Inl (Raised (Collaborator e)
                   (w\<lparr>heap := heap w @ [b', rest], trace := trace w @ ev1\<rparr>))
         | (Inr r, b') \<Rightarrow>
             (case rf r (sink w outpath) of
                (Some e, c') \<Rightarrow>
                  Inl (Raised (Collaborator e)
                        (w\<lparr>heap := heap w @ [b', rest], files := (files w)(outpath \<mapsto> c'),
                           trace := trace w @ ev1 @ [Result_func (Suc n) r]\<rparr>))
              | (None, c') \<Rightarrow>
                  Inr (Suc n, Suc (length (heap w)),
                       w\<lparr>heap := heap w @ [b', rest], files := (files w)(outpath \<mapsto> c'),
                         trace := trace w @ ev1 @
                           [Result_func (Suc n) r, Info_batch_finished (length b'),
                            Debug_filesize outpath]\<rparr>)))"
  by (simp add: loop_body_def Let_def emit_def sink_def
      split: prod.splits sum.splits option.splits)

lemma loop_body_Inl:
  assumes "loop_body mp mf rf outpath B m n p w = Inl out"
  shows "\<exists>e w'. out = Raised (Collaborator e) w' \<and>
           ((\<exists>b b'. mp b mf = (Inl e, b')) \<or> (\<exists>r c c'. rf r c = (Some e, c')))"
  using assms
  by (auto simp: loop_body_eq Let_def split: prod.splits sum.splits option.splits)

lemma loop_body_Inr:
  assumes "loop_body mp mf rf outpath B m n p w = Inr (n', p', w')"
  shows "n' = Suc n" and "p' = Suc (length (heap w))"
    and "heap w' ! p' = slice_from B (heap w ! p)" and "p' < length (heap w')"
  using assms
  by (auto simp: loop_body_eq Let_def nth_append
      split: prod.splits sum.splits option.splits)

text \<open>
  Induction over the passes of a loop that returns: the pass that raises, the pass
  after which the remaining list is empty, and a pass followed by the rest of the loop.
\<close>

lemma batch_loop_induct [consumes 1, case_names Raise Last Next]:
  assumes run: "batch_loop mp mf rf outpath B m n p w = Some out"
    and raise: "\<And>n p w out. loop_body mp mf rf outpath B m n p w = Inl out \<Longrightarrow> P n p w out"
    and last: "\<And>n p w n' p' w'.
        loop_body mp mf rf outpath B m n p w = Inr (n', p', w') \<Longrightarrow>
        heap w' ! p' = [] \<Longrightarrow> P n p w (Returned w')"
    and nxt: "\<And>n p w n' p' w' out.
        loop_body mp mf rf outpath B m n p w = Inr (n', p', w') \<Longrightarrow>
        heap w' ! p' \<noteq> [] \<Longrightarrow>
        batch_loop mp mf rf outpath B m n' p' w' = Some out \<Longrightarrow>
        P n' p' w' out \<Longrightarrow> P n p w out"
  shows "P n p w out"
proof -
  have "mp' = mp \<and> mf' = mf \<and> rf' = rf \<and> outpath' = outpath \<and> B' = B \<and> m' = m \<longrightarrow>
        batch_loop mp mf rf outpath B m n p w = Some out \<and> P n p w out"
    if "batch_loop mp' mf' rf' outpath' B' m' n p w = Some out"
    for mp' mf' rf' outpath' B' m'
    using that
  proof (rule batch_loop.raw_induct [where P = "\<lambda>mp' mf' rf' outpath' B' m' n p w out.
        mp' = mp \<and> mf' = mf \<and> rf' = rf \<and> outpath' = outpath \<and> B' = B \<and> m' = m \<longrightarrow>
        batch_loop mp mf rf outpath B m n p w = Some out \<and> P n p w out", rotated])
    fix loop mp' mf' rf' outpath' B' m' n p w out
    assume IH: "\<And>mp' mf' rf' outpath' B' m' n p w out.
        loop mp' mf' rf' outpath' B' m' n p w = Some out \<Longrightarrow>
        mp' = mp \<and> mf' = mf \<and> rf' = rf \<and> outpath' = outpath \<and> B' = B \<and> m' = m \<longrightarrow>
        batch_loop mp mf rf outpath B m n p w = Some out \<and> P n p w out"
      and step: "(case loop_body mp' mf' rf' outpath' B' m' n p w of
            Inl out \<Rightarrow> Some out
          | Inr (n', paths', w') \<Rightarrow>
              if length (heap w' ! paths') = 0 then Some (Returned w')
              else loop mp' mf' rf' outpath' B' m' n' paths' w') = Some out"
    show "mp' = mp \<and> mf' = mf \<and> rf' = rf \<and> outpath' = outpath \<and> B' = B \<and> m' = m \<longrightarrow>
        batch_loop mp mf rf outpath B m n p w = Some out \<and> P n p w out"
    proof (intro impI, elim conjE)
      assume eqs: "mp' = mp" "mf' = mf" "rf' = rf" "outpath' = outpath" "B' = B" "m' = m"
      show "batch_loop mp mf rf outpath B m n p w = Some out \<and> P n p w out"
      proof (cases "loop_body mp mf rf outpath B m n p w")
        case (Inl o1)
        with step eqs have "o1 = out" by simp
        with Inl show ?thesis by (simp add: batch_loop.simps raise)
      next
        case (Inr t)
        obtain n' p' w' where t: "t = (n', p', w')" by (cases t)
        show ?thesis
        proof (cases "heap w' ! p' = []")
          case True
          with step eqs Inr t have "out = Returned w'" by simp
          with Inr t True show ?thesis by (simp add: batch_loop.simps last)
        next
          case False
          with step eqs Inr t have "loop mp mf rf outpath B m n' p' w' = Some out" by simp
          from IH [OF this] have *: "batch_loop mp mf rf outpath B m n' p' w' = Some out"
            and **: "P n' p' w' out" by simp_all
          from Inr t False * have "batch_loop mp mf rf outpath B m n p w = Some out"
            by (subst batch_loop.simps) simp
          moreover from Inr t False * ** have "P n p w out" by (auto intro: nxt)
          ultimately show ?thesis by simp
        qed
      qed
    qed
  qed
  from this [OF run] show ?thesis by simp
qed

text \<open>The outcomes of \<open>generic_processor\<close>, read off its definition.\<close>

text \<open>The bound \<open>2 ^ 1024 - 2 ^ 970\<close> written out, for evaluation.\<close>

lemma float_overflows_code [code]:
  "float_overflows k =
     (179769313486231580793728971405303415079934132710037826936173778980444968292764750946649017977587207096330286416692887910946555547851940402630657488671505820681908902000708383676273854845817711531764475730270069855571366959622842914819860834936475292719074168444365510704342711559699508093042880177904174497792
      \<le> \<bar>k\<bar>)"
  by (simp add: float_overflows_def)

lemma float_overflows_zero [simp]: "\<not> float_overflows 0"
  by (simp add: float_overflows_def)

lemma generic_processor_cases [consumes 1, case_names Overflow ZeroDivision Raised Returned]:
  assumes run: "generic_processor mp mf rf outpath paths B w = Some out"
    and over: "float_overflows B \<Longrightarrow>
        out = Raised OverflowError
          (w\<lparr>files := (files w)(outpath \<mapsto> []), trace := trace w @ [BZ2File_open outpath]\<rparr>)
        \<Longrightarrow> Q"
    and zero: "B = 0 \<Longrightarrow>
        out = Raised ZeroDivisionError
          (w\<lparr>files := (files w)(outpath \<mapsto> []), trace := trace w @ [BZ2File_open outpath]\<rparr>)
        \<Longrightarrow> Q"
    and rais: "\<And>e w2. B \<noteq> 0 \<Longrightarrow>
        batch_loop mp mf rf outpath B (total_batches (length (heap w ! paths)) B) 0 paths
          (w\<lparr>files := (files w)(outpath \<mapsto> []),
             trace := trace w @ [BZ2File_open outpath, Info_script_started]\<rparr>)
          = Some (Raised e w2) \<Longrightarrow>
        out = Raised e w2 \<Longrightarrow> \<not> float_overflows B \<Longrightarrow> Q"
    and ret: "\<And>w2. B \<noteq> 0 \<Longrightarrow>
        batch_loop mp mf rf outpath B (total_batches (length (heap w ! paths)) B) 0 paths
          (w\<lparr>files := (files w)(outpath \<mapsto> []),
             trace := trace w @ [BZ2File_open outpath, Info_script_started]\<rparr>)
          = Some (Returned w2) \<Longrightarrow>
        out = Returned (w2\<lparr>trace := trace w2 @ [Info_script_done, BZ2File_close]\<rparr>) \<Longrightarrow>
        \<not> float_overflows B \<Longrightarrow> Q"
  shows Q
proof (cases "float_overflows B")
  case True
  with run over show ?thesis
    by (simp add: generic_processor_def emit_def)
next
  case no: False
  show ?thesis
  proof (cases "B = 0")
    case True
    with run zero show ?thesis
      by (simp add: generic_processor_def emit_def)
  next
    case False
    with no run rais ret show ?thesis
      by (auto simp: generic_processor_def emit_def Let_def
          split: option.splits outcome.splits)
  qed
qed

text \<open>A run that gets past the division.\<close>

lemma generic_processor_loop:
  assumes "B \<noteq> 0" and "\<not> float_overflows B"
  shows "generic_processor mp mf rf outpath paths B w =
     (case batch_loop mp mf rf outpath B (total_batches (length (heap w ! paths)) B) 0 paths
             (w\<lparr>files := (files w)(outpath \<mapsto> []),
                trace := trace w @ [BZ2File_open outpath, Info_script_started]\<rparr>) of
        None \<Rightarrow> None
      | Some (Raised e w2) \<Rightarrow> Some (Raised e w2)
      | Some (Returned w2) \<Rightarrow>
          Some (Returned (w2\<lparr>trace := trace w2 @ [Info_script_done, BZ2File_close]\<rparr>)))"
  using assms
  by (simp add: generic_processor_def emit_def Let_def split: option.splits outcome.splits)

subsection \<open>Termination\<close>

lemma batch_loop_terminates:
  assumes "1 \<le> B"
  shows "\<exists>out. batch_loop mp mf rf outpath B m n p w = Some out"
proof (induction "length (heap w ! p)" arbitrary: n p w rule: less_induct)
  case less
  show ?case
  proof (cases "loop_body mp mf rf outpath B m n p w")
    case (Inl o1)
    then show ?thesis by (simp add: batch_loop.simps)
  next
    case (Inr t)
    obtain n' p' w' where t: "t = (n', p', w')" by (cases t)
    note rest = loop_body_Inr(3) [OF Inr [unfolded t]]
    show ?thesis
    proof (cases "heap w' ! p' = []")
      case True
      with Inr t show ?thesis by (simp add: batch_loop.simps)
    next
      case False
      with rest assms have "length (heap w' ! p') < length (heap w ! p)"
        by (simp add: slice_from_shorter)
      from less [OF this] obtain out
        where "batch_loop mp mf rf outpath B m n' p' w' = Some out" by blast
      with Inr t False show ?thesis by (subst batch_loop.simps) simp
    qed
  qed
qed

lemma batch_loop_negative:
  assumes "batch_loop mp mf rf outpath B m n p w = Some out"
    and "B < 0"
  shows "heap w ! p \<noteq> [] \<longrightarrow> (\<exists>e w'. out = Raised e w')"
  using assms(1)
proof (induction rule: batch_loop_induct)
  case (Raise n p w out)
  from loop_body_Inl [OF this] show ?case by blast
next
  case (Last n p w n' p' w')
  from loop_body_Inr(3) [OF Last(1)] Last(2)
  have "slice_from B (heap w ! p) = []" by simp
  with slice_from_neg [OF assms(2)] show ?case by blast
next
  case (Next n p w n' p' w' out)
  then show ?case by simp
qed

lemma batch_loop_Raised:
  assumes "batch_loop mp mf rf outpath B m n p w = Some (Raised x w')"
  shows "\<exists>e. x = Collaborator e \<and>
           ((\<exists>b b'. mp b mf = (Inl e, b')) \<or> (\<exists>r c c'. rf r c = (Some e, c')))"
proof -
  have "\<forall>x w'. out = Raised x w' \<longrightarrow> (\<exists>e. x = Collaborator e \<and>
           ((\<exists>b b'. mp b mf = (Inl e, b')) \<or> (\<exists>r c c'. rf r c = (Some e, c'))))"
    if "batch_loop mp mf rf outpath B m n p w = Some out" for out
    using that
  proof (induction rule: batch_loop_induct)
    case (Raise n p w out)
    from loop_body_Inl [OF this] show ?case by blast
  next
    case (Last n p w n' p' w')
    show ?case by simp
  next
    case (Next n p w n' p' w' out)
    then show ?case by simp
  qed
  from this [OF assms] show ?thesis by simp
qed

subsection \<open>The list objects\<close>

lemma batch_loop_heap:
  assumes "batch_loop mp mf rf outpath B m n p w = Some out"
  shows "take (length (heap w)) (heap (world_of out)) = heap w"
  using assms
proof (induction rule: batch_loop_induct)
  case (Raise n p w out)
  then show ?case
    by (auto simp: loop_body_eq Let_def split: prod.splits sum.splits option.splits)
next
  case (Last n p w n' p' w')
  then show ?case
    by (auto simp: loop_body_eq Let_def split: prod.splits sum.splits option.splits)
next
  case (Next n p w n' p' w' out)
  from Next.hyps(1) obtain ys where "heap w' = heap w @ ys"
    by (auto simp: loop_body_eq Let_def split: prod.splits sum.splits option.splits)
  with Next.IH show ?case
    by (metis append_eq_conv_conj length_append take_take min.absorb1 le_add1)
qed

subsection \<open>The calls of a run and the payload of the sink\<close>

lemma batches_append [simp]: "batches (xs @ ys) = batches xs @ batches ys"
  by (induction xs rule: batches.induct) simp_all

lemma batch_numbers_append [simp]: "batch_numbers (xs @ ys) = batch_numbers xs @ batch_numbers ys"
  by (induction xs rule: batch_numbers.induct) simp_all

lemma reduced_append [simp]: "reduced (xs @ ys) = reduced xs @ reduced ys"
  by (induction xs rule: reduced.induct) simp_all

lemma written_Nil [simp]: "written rf [] c = c"
  by (simp add: written_def)

lemma written_Cons [simp]: "written rf (r # rs) c = written rf rs (snd (rf r c))"
  by (simp add: written_def)

lemma sink_Some: "files w p = Some c \<Longrightarrow> sink w p = c"
  by (simp add: sink_def)

lemmas loop_body_splits = prod.splits sum.splits option.splits

lemma loop_body_Inl_events:
  assumes "loop_body mp mf rf outpath B m n p w = Inl out"
    and "files w outpath = Some c"
  shows "\<exists>ev. trace (world_of out) = trace w @ ev
        \<and> (\<forall>e\<in>set ev. \<not> opens_or_closes e)
        \<and> files (world_of out) = (files w)(outpath \<mapsto> written rf (reduced ev) c)
        \<and> length (reduced ev) \<le> 1
        \<and> batches ev = [slice_to B (heap w ! p)]
        \<and> batch_numbers ev = [Suc n]
        \<and> \<not> returned (Some out)"
proof (cases "mp (slice_to B (heap w ! p)) mf")
  case (Pair res b')
  show ?thesis
  proof (cases res)
    case (Inl e)
    with Pair assms(1) have "out = Raised (Collaborator e)
        (w\<lparr>heap := heap w @ [b', slice_from B (heap w ! p)],
           trace := trace w @ [Info_starting_batch (Suc n) m,
             FeatureReader_multiprocessing (Suc n) (slice_to B (heap w ! p))]\<rparr>)"
      by (simp add: loop_body_eq Let_def)
    with assms(2) show ?thesis
      by (intro exI [of _ "[Info_starting_batch (Suc n) m,
             FeatureReader_multiprocessing (Suc n) (slice_to B (heap w ! p))]"])
        (simp add: map_upd_triv)
  next
    case (Inr r)
    with Pair assms show ?thesis
      by (cases "rf r c") (auto simp: loop_body_eq Let_def sink_Some split: option.splits)
  qed
qed

lemma loop_body_Inr_events:
  assumes "loop_body mp mf rf outpath B m n p w = Inr (n', p', w')"
    and "files w outpath = Some c"
  shows "\<exists>ev r. trace w' = trace w @ ev
        \<and> (\<forall>e\<in>set ev. \<not> opens_or_closes e)
        \<and> files w' = (files w)(outpath \<mapsto> snd (rf r c))
        \<and> reduced ev = [r]
        \<and> batches ev = [slice_to B (heap w ! p)]
        \<and> batch_numbers ev = [Suc n]"
proof (cases "mp (slice_to B (heap w ! p)) mf")
  case (Pair res b')
  show ?thesis
  proof (cases res)
    case (Inl e)
    with Pair assms show ?thesis
      by (simp add: loop_body_eq Let_def)
  next
    case (Inr r)
    with Pair assms show ?thesis
      by (cases "rf r c") (auto simp: loop_body_eq Let_def sink_Some split: option.splits)
  qed
qed

lemma batch_loop_events:
  assumes "batch_loop mp mf rf outpath B m n p w = Some out"
  shows "\<forall>c. files w outpath = Some c \<longrightarrow>
     (\<exists>evs. trace (world_of out) = trace w @ evs
        \<and> (\<forall>e\<in>set evs. \<not> opens_or_closes e)
        \<and> files (world_of out) = (files w)(outpath \<mapsto> written rf (reduced evs) c)
        \<and> length (reduced evs) \<le> length (batches evs)
        \<and> (returned (Some out) \<longrightarrow> length (reduced evs) = length (batches evs)))"
  using assms
proof (induction rule: batch_loop_induct)
  case (Raise n p w out)
  show ?case
  proof (intro allI impI)
    fix c
    assume "files w outpath = Some c"
    from loop_body_Inl_events [OF Raise this] obtain ev where
      "trace (world_of out) = trace w @ ev" "\<forall>e\<in>set ev. \<not> opens_or_closes e"
      "files (world_of out) = (files w)(outpath \<mapsto> written rf (reduced ev) c)"
      "length (reduced ev) \<le> 1" "batches ev = [slice_to B (heap w ! p)]"
      "\<not> returned (Some out)"
      by blast
    then show "\<exists>evs. trace (world_of out) = trace w @ evs
        \<and> (\<forall>e\<in>set evs. \<not> opens_or_closes e)
        \<and> files (world_of out) = (files w)(outpath \<mapsto> written rf (reduced evs) c)
        \<and> length (reduced evs) \<le> length (batches evs)
        \<and> (returned (Some out) \<longrightarrow> length (reduced evs) = length (batches evs))"
      by (intro exI [of _ ev]) simp
  qed
next
  case (Last n p w n' p' w')
  show ?case
  proof (intro allI impI)
    fix c
    assume "files w outpath = Some c"
    from loop_body_Inr_events [OF Last(1) this] obtain ev r where
      "trace w' = trace w @ ev" "\<forall>e\<in>set ev. \<not> opens_or_closes e"
      "files w' = (files w)(outpath \<mapsto> snd (rf r c))"
      "reduced ev = [r]" "batches ev = [slice_to B (heap w ! p)]"
      by blast
    then show "\<exists>evs. trace (world_of (Returned w')) = trace w @ evs
        \<and> (\<forall>e\<in>set evs. \<not> opens_or_closes e)
        \<and> files (world_of (Returned w')) = (files w)(outpath \<mapsto> written rf (reduced evs) c)
        \<and> length (reduced evs) \<le> length (batches evs)
        \<and> (returned (Some (Returned w')) \<longrightarrow> length (reduced evs) = length (batches evs))"
      by (intro exI [of _ ev]) simp
  qed
next
  case (Next n p w n' p' w' out)
  show ?case
  proof (intro allI impI)
    fix c
    assume c: "files w outpath = Some c"
    from loop_body_Inr_events [OF Next.hyps(1) c] obtain ev r where
      w': "trace w' = trace w @ ev" "\<forall>e\<in>set ev. \<not> opens_or_closes e"
        "files w' = (files w)(outpath \<mapsto> snd (rf r c))"
        "reduced ev = [r]" "batches ev = [slice_to B (heap w ! p)]"
      by blast
    from w'(3) have "files w' outpath = Some (snd (rf r c))" by simp
    with Next.IH obtain evs where
      evs: "trace (world_of out) = trace w' @ evs" "\<forall>e\<in>set evs. \<not> opens_or_closes e"
        "files (world_of out) = (files w')(outpath \<mapsto> written rf (reduced evs) (snd (rf r c)))"
        "length (reduced evs) \<le> length (batches evs)"
        "returned (Some out) \<longrightarrow> length (reduced evs) = length (batches evs)"
      by blast
    show "\<exists>evs. trace (world_of out) = trace w @ evs
        \<and> (\<forall>e\<in>set evs. \<not> opens_or_closes e)
        \<and> files (world_of out) = (files w)(outpath \<mapsto> written rf (reduced evs) c)
        \<and> length (reduced evs) \<le> length (batches evs)
        \<and> (returned (Some out) \<longrightarrow> length (reduced evs) = length (batches evs))"
    proof (intro exI [of _ "ev @ evs"] conjI)
      show "trace (world_of out) = trace w @ ev @ evs" using w'(1) evs(1) by simp
      show "\<forall>e\<in>set (ev @ evs). \<not> opens_or_closes e" using w'(2) evs(2) by auto
      show "files (world_of out) = (files w)(outpath \<mapsto> written rf (reduced (ev @ evs)) c)"
        using w'(3,4) evs(3) by simp
      show "length (reduced (ev @ evs)) \<le> length (batches (ev @ evs))"
        using w'(4,5) evs(4) by simp
      show "returned (Some out) \<longrightarrow> length (reduced (ev @ evs)) = length (batches (ev @ evs))"
        using w'(4,5) evs(5) by simp
    qed
  qed
qed

lemma run_events_eq: "trace w' = trace w @ evs \<Longrightarrow> run_events w w' = evs"
  by (simp add: run_events_def)

subsection \<open>The batches of a run that returns\<close>

lemma funpow_slice_from: "0 \<le> B \<Longrightarrow> (slice_from B ^^ k) xs = drop (k * nat B) xs"
  by (induction k) (simp_all add: slice_from_pos add.commute)

lemma batch_loop_batches:
  assumes "batch_loop mp mf rf outpath B m n p w = Some out"
  shows "\<forall>w'. out = Returned w' \<longrightarrow>
     (\<exists>evs. trace w' = trace w @ evs
        \<and> concat (batches evs) = heap w ! p
        \<and> batches evs \<noteq> []
        \<and> (\<forall>k<length (batches evs).
              batches evs ! k = slice_to B ((slice_from B ^^ k) (heap w ! p))))"
  using assms
proof (induction rule: batch_loop_induct)
  case (Raise n p w out)
  from loop_body_Inl [OF this] show ?case by auto
next
  case (Last n p w n' p' w')
  from loop_body_Inr(3) [OF Last(1)] Last(2) have rest: "slice_from B (heap w ! p) = []"
    by simp
  with slice_append [of B "heap w ! p"] have all: "slice_to B (heap w ! p) = heap w ! p"
    by simp
  from Last(1) obtain ev where "trace w' = trace w @ ev"
    "batches ev = [slice_to B (heap w ! p)]"
    by (auto simp: loop_body_eq Let_def split: loop_body_splits)
  with all show ?case
    by (intro allI impI exI [of _ ev]) simp
next
  case (Next n p w n' p' w' out)
  note rest = loop_body_Inr(3) [OF Next.hyps(1)]
  from Next.hyps(1) obtain ev where ev: "trace w' = trace w @ ev"
    "batches ev = [slice_to B (heap w ! p)]"
    by (auto simp: loop_body_eq Let_def split: loop_body_splits)
  show ?case
  proof (intro allI impI)
    fix w''
    assume "out = Returned w''"
    with Next.IH rest obtain evs where evs: "trace w'' = trace w' @ evs"
      "concat (batches evs) = slice_from B (heap w ! p)"
      "\<forall>k<length (batches evs).
          batches evs ! k = slice_to B ((slice_from B ^^ k) (slice_from B (heap w ! p)))"
      by auto
    have "batches (ev @ evs) ! k = slice_to B ((slice_from B ^^ k) (heap w ! p))"
      if "k < length (batches (ev @ evs))" for k
    proof (cases k)
      case 0
      with ev(2) show ?thesis by simp
    next
      case (Suc j)
      with that ev(2) evs(3) show ?thesis
        by (simp add: funpow_swap1)
    qed
    with ev evs(1,2) slice_append [of B "heap w ! p"]
    show "\<exists>evs. trace w'' = trace w @ evs
        \<and> concat (batches evs) = heap w ! p
        \<and> batches evs \<noteq> []
        \<and> (\<forall>k<length (batches evs).
              batches evs ! k = slice_to B ((slice_from B ^^ k) (heap w ! p)))"
      by (intro exI [of _ "ev @ evs"]) simp
  qed
qed

subsection \<open>Counting the batches\<close>

lemma ceil_div_nat:
  assumes "0 < (b::nat)"
  shows "(L + b - 1) div b = (if L mod b = 0 then L div b else Suc (L div b))"
proof (cases "L mod b = 0")
  case True
  with div_mult_mod_eq [of L b] have q: "L div b * b = L" by simp
  from assms have "L + b - 1 = L + (b - 1)" by simp
  with q have "L + b - 1 = L div b * b + (b - 1)" by simp
  then have "(L + b - 1) div b = (L div b * b + (b - 1)) div b" by simp
  also from assms have "\<dots> = L div b + (b - 1) div b"
    by (intro div_mult_self3) simp
  also from assms have "\<dots> = L div b" by simp
  finally show ?thesis using True by simp
next
  case False
  then obtain r where r: "L mod b = Suc r" by (cases "L mod b") simp_all
  from assms have "L mod b < b" by simp
  with r have rb: "r < b" by simp
  from div_mult_mod_eq [of L b] r have "L = L div b * b + Suc r" by simp
  then have "L + b - 1 = L div b * b + Suc r + b - 1" by simp
  also have "\<dots> = Suc (L div b) * b + r" by simp
  finally have "(L + b - 1) div b = (Suc (L div b) * b + r) div b" by simp
  also from assms have "\<dots> = Suc (L div b) + r div b"
    by (intro div_mult_self3) simp
  also from rb have "\<dots> = Suc (L div b)" by simp
  finally show ?thesis using False by simp
qed

lemma total_batches_pos:
  assumes "1 \<le> B"
  shows "total_batches L B = int ((L + nat B - 1) div nat B)"
proof -
  define b where "b = nat B"
  with assms have B: "B = int b" and b: "0 < b" by simp_all
  from b have "- ((- int L) div int b) =
      (if int L mod int b = 0 then int L div int b else int L div int b + 1)"
    by (simp add: zdiv_zminus1_eq_if)
  also have "\<dots> = int (if L mod b = 0 then L div b else Suc (L div b))"
    by (simp flip: of_nat_mod of_nat_div)
  also have "\<dots> = int ((L + b - 1) div b)"
    by (simp only: ceil_div_nat [OF b])
  finally show ?thesis by (simp add: total_batches_def B)
qed


lemma ceil_div_one:
  assumes "0 < (L::nat)" and "L \<le> b"
  shows "(L + b - 1) div b = 1" and "(if L mod b = 0 then b else L mod b) = L"
proof -
  from assms have b: "0 < b" by simp
  note c = ceil_div_nat [OF b, of L]
  show "(L + b - 1) div b = 1"
  proof (cases "L < b")
    case True
    with assms(1) have "L mod b = L" "L div b = 0" "L \<noteq> 0" by simp_all
    with c show ?thesis by simp
  next
    case False
    with assms(2) have "L = b" by simp
    with b have "L mod b = 0" "L div b = 1" by simp_all
    with c show ?thesis by simp
  qed
  show "(if L mod b = 0 then b else L mod b) = L"
  proof (cases "L < b")
    case True
    with assms(1) have "L mod b = L" "L \<noteq> 0" by simp_all
    then show ?thesis by (simp only: if_False)
  next
    case False
    with assms(2) have "L = b" by simp
    with b have "L mod b = 0" "b = L" by simp_all
    then show ?thesis by simp
  qed
qed

lemma ceil_div_step:
  assumes "0 < (b::nat)" and "b < L"
  shows "Suc ((L - b + b - 1) div b) = (L + b - 1) div b" and "(L - b) mod b = L mod b"
proof -
  from assms have 1: "L + b - 1 = (L - 1) + b" by arith
  from assms have 2: "L - b + b - 1 = L - 1" by arith
  from assms(1) have "((L - 1) + b) div b = Suc ((L - 1) div b)"
    by (simp only: div_add_self2)
  then show "Suc ((L - b + b - 1) div b) = (L + b - 1) div b"
    by (simp only: 1 2)
  from assms have "b \<le> L" by simp
  from le_mod_geq [OF this] show "(L - b) mod b = L mod b" by (rule sym)
qed

lemma batch_loop_batch_lengths:
  assumes "batch_loop mp mf rf outpath B m n p w = Some out" and pos: "1 \<le> B"
  shows "\<forall>w'. out = Returned w' \<longrightarrow> heap w ! p \<noteq> [] \<longrightarrow>
     (\<exists>evs. trace w' = trace w @ evs
        \<and> batches evs \<noteq> []
        \<and> length (batches evs) = (length (heap w ! p) + nat B - 1) div nat B
        \<and> (\<forall>x\<in>set (butlast (batches evs)). length x = nat B)
        \<and> length (last (batches evs)) =
            (if length (heap w ! p) mod nat B = 0 then nat B
             else length (heap w ! p) mod nat B))"
  using assms(1)
proof (induction rule: batch_loop_induct)
  case (Raise n p w out)
  from loop_body_Inl [OF this] show ?case by auto
next
  case (Last n p w n' p' w')
  from loop_body_Inr(3) [OF Last(1)] Last(2) pos have short: "length (heap w ! p) \<le> nat B"
    by (simp add: slice_from_pos)
  from Last(1) obtain ev where ev: "trace w' = trace w @ ev"
    "batches ev = [slice_to B (heap w ! p)]"
    by (auto simp: loop_body_eq Let_def split: loop_body_splits)
  show ?case
  proof (intro allI impI)
    fix w''
    assume "Returned w' = Returned w''" and "heap w ! p \<noteq> []"
    then have L: "0 < length (heap w ! p)" and w'': "w'' = w'" by simp_all
    from pos short have "length (slice_to B (heap w ! p)) = length (heap w ! p)"
      by (simp add: slice_to_pos)
    then have len: "length (last (batches ev)) = length (heap w ! p)"
      using ev(2) by simp
    from ev(2) have one: "length (batches ev) = 1" "butlast (batches ev) = []"
      "batches ev \<noteq> []" by simp_all
    show "\<exists>evs. trace w'' = trace w @ evs
        \<and> batches evs \<noteq> []
        \<and> length (batches evs) = (length (heap w ! p) + nat B - 1) div nat B
        \<and> (\<forall>x\<in>set (butlast (batches evs)). length x = nat B)
        \<and> length (last (batches evs)) =
            (if length (heap w ! p) mod nat B = 0 then nat B
             else length (heap w ! p) mod nat B)"
    proof (intro exI [of _ ev] conjI)
      show "trace w'' = trace w @ ev" using ev(1) w'' by simp
      show "batches ev \<noteq> []" by (rule one(3))
      show "length (batches ev) = (length (heap w ! p) + nat B - 1) div nat B"
        by (simp only: one(1) ceil_div_one(1) [OF L short])
      show "\<forall>x\<in>set (butlast (batches ev)). length x = nat B"
        by (simp only: one(2)) simp
      show "length (last (batches ev)) =
            (if length (heap w ! p) mod nat B = 0 then nat B
             else length (heap w ! p) mod nat B)"
        by (simp only: len ceil_div_one(2) [OF L short])
    qed
  qed
next
  case (Next n p w n' p' w' out)
  note rest = loop_body_Inr(3) [OF Next.hyps(1)]
  from pos have b: "0 < nat B" by simp
  from rest Next.hyps(2) pos have long: "nat B < length (heap w ! p)"
    by (simp add: slice_from_pos)
  from rest pos have len': "length (heap w' ! p') = length (heap w ! p) - nat B"
    by (simp add: slice_from_pos)
  from Next.hyps(1) obtain ev where ev: "trace w' = trace w @ ev"
    "batches ev = [slice_to B (heap w ! p)]"
    by (auto simp: loop_body_eq Let_def split: loop_body_splits)
  from pos long have first: "length (slice_to B (heap w ! p)) = nat B"
    by (simp add: slice_to_pos)
  show ?case
  proof (intro allI impI)
    fix w''
    assume "out = Returned w''"
    with Next.IH Next.hyps(2) len' obtain evs where evs: "trace w'' = trace w' @ evs"
      "batches evs \<noteq> []"
      "length (batches evs) = (length (heap w ! p) - nat B + nat B - 1) div nat B"
      "\<forall>x\<in>set (butlast (batches evs)). length x = nat B"
      "length (last (batches evs)) =
         (if (length (heap w ! p) - nat B) mod nat B = 0 then nat B
          else (length (heap w ! p) - nat B) mod nat B)"
      by auto
    from ev evs(1) have 1: "trace w'' = trace w @ ev @ evs" by simp
    from ev(2) evs(2) have 2: "batches (ev @ evs) \<noteq> []" by simp
    from ev(2) evs(3)
    have "length (batches (ev @ evs)) = Suc ((length (heap w ! p) - nat B + nat B - 1) div nat B)"
      by simp
    then have 3: "length (batches (ev @ evs)) = (length (heap w ! p) + nat B - 1) div nat B"
      by (simp only: ceil_div_step(1) [OF b long])
    from ev(2) evs(2,4) first
    have 4: "\<forall>x\<in>set (butlast (batches (ev @ evs))). length x = nat B"
      by simp
    from ev(2) evs(2) have "last (batches (ev @ evs)) = last (batches evs)"
      by simp
    with evs(5)
    have 5: "length (last (batches (ev @ evs))) =
         (if length (heap w ! p) mod nat B = 0 then nat B
          else length (heap w ! p) mod nat B)"
      by (simp only: ceil_div_step(2) [OF b long])
    from 1 2 3 4 5
    show "\<exists>evs. trace w'' = trace w @ evs
        \<and> batches evs \<noteq> []
        \<and> length (batches evs) = (length (heap w ! p) + nat B - 1) div nat B
        \<and> (\<forall>x\<in>set (butlast (batches evs)). length x = nat B)
        \<and> length (last (batches evs)) =
            (if length (heap w ! p) mod nat B = 0 then nat B
             else length (heap w ! p) mod nat B)"
      by (intro exI [of _ "ev @ evs"] conjI)
  qed
qed

subsection \<open>The empty list and empty batches\<close>

lemma total_batches_empty: "total_batches 0 B = 0"
  by (simp add: total_batches_def)

lemma batch_loop_nonempty_batches:
  assumes "batch_loop mp mf rf outpath B m n p w = Some out" and pos: "1 \<le> B"
  shows "heap w ! p \<noteq> [] \<longrightarrow>
     (\<exists>evs. trace (world_of out) = trace w @ evs \<and> [] \<notin> set (batches evs))"
  using assms(1)
proof (induction rule: batch_loop_induct)
  case (Raise n p w out)
  then obtain ev where "trace (world_of out) = trace w @ ev"
    "batches ev = [slice_to B (heap w ! p)]"
    by (auto simp: loop_body_eq Let_def split: loop_body_splits)
  with pos show ?case
    by (intro impI exI [of _ ev]) (simp add: slice_to_pos)
next
  case (Last n p w n' p' w')
  then obtain ev where "trace w' = trace w @ ev"
    "batches ev = [slice_to B (heap w ! p)]"
    by (auto simp: loop_body_eq Let_def split: loop_body_splits)
  with pos show ?case
    by (intro impI exI [of _ ev]) (simp add: slice_to_pos)
next
  case (Next n p w n' p' w' out)
  from Next.hyps(1) obtain ev where ev: "trace w' = trace w @ ev"
    "batches ev = [slice_to B (heap w ! p)]"
    by (auto simp: loop_body_eq Let_def split: loop_body_splits)
  from Next.IH Next.hyps(2) obtain evs where
    evs: "trace (world_of out) = trace w' @ evs" "[] \<notin> set (batches evs)"
    by blast
  show ?case
  proof
    assume "heap w ! p \<noteq> []"
    with pos have "slice_to B (heap w ! p) \<noteq> []" by (simp add: slice_to_pos)
    with ev evs show "\<exists>evs. trace (world_of out) = trace w @ evs \<and> [] \<notin> set (batches evs)"
      by (intro exI [of _ "ev @ evs"]) simp
  qed
qed

lemma empty_list_outcome:
  assumes "heap w ! paths = []" and "B \<noteq> 0" and "\<not> float_overflows B"
  shows "\<exists>out evs. generic_processor mp mf rf outpath paths B w = Some out
       \<and> trace (world_of out) = trace w @
           [BZ2File_open outpath, Info_script_started, Info_starting_batch 1 0,
            FeatureReader_multiprocessing 1 []] @ evs
       \<and> raised (Some out) \<noteq> Some ZeroDivisionError
       \<and> raised (Some out) \<noteq> Some OverflowError"
proof -
  let ?w1 = "w\<lparr>files := (files w)(outpath \<mapsto> []),
             trace := trace w @ [BZ2File_open outpath, Info_script_started]\<rparr>"
  let ?loop = "batch_loop mp mf rf outpath B 0 0 paths ?w1"
  have "\<exists>out evs. ?loop = Some out
       \<and> trace (world_of out) = trace ?w1 @
           [Info_starting_batch 1 0, FeatureReader_multiprocessing 1 []] @ evs
       \<and> raised (Some out) \<noteq> Some ZeroDivisionError
       \<and> raised (Some out) \<noteq> Some OverflowError"
  proof (cases "loop_body mp mf rf outpath B 0 0 paths ?w1")
    case (Inl out)
    then have "?loop = Some out" by (subst batch_loop.simps) simp
    moreover from Inl assms(1) have "\<exists>evs. trace (world_of out) = trace ?w1 @
           [Info_starting_batch 1 0, FeatureReader_multiprocessing 1 []] @ evs"
      by (auto simp: loop_body_eq Let_def slice_Nil split: loop_body_splits)
    moreover from loop_body_Inl [OF Inl] have "raised (Some out) \<noteq> Some ZeroDivisionError"
      "raised (Some out) \<noteq> Some OverflowError"
      by auto
    ultimately show ?thesis by blast
  next
    case (Inr t)
    obtain n' p' w' where t: "t = (n', p', w')" by (cases t)
    from loop_body_Inr(3) [OF Inr [unfolded t]] assms(1) have "heap w' ! p' = []"
      by (simp add: slice_Nil)
    with Inr t have "?loop = Some (Returned w')" by (subst batch_loop.simps) simp
    moreover from Inr t assms(1) have "\<exists>evs. trace w' = trace ?w1 @
           [Info_starting_batch 1 0, FeatureReader_multiprocessing 1 []] @ evs"
      by (auto simp: loop_body_eq Let_def slice_Nil split: loop_body_splits)
    ultimately show ?thesis by auto
  qed
  then obtain out evs where loop: "?loop = Some out"
    "trace (world_of out) = trace ?w1 @
           [Info_starting_batch 1 0, FeatureReader_multiprocessing 1 []] @ evs"
    "raised (Some out) \<noteq> Some ZeroDivisionError"
    "raised (Some out) \<noteq> Some OverflowError"
    by blast
  show ?thesis
  proof (cases out)
    case (Returned w2)
    with loop assms have "generic_processor mp mf rf outpath paths B w =
        Some (Returned (w2\<lparr>trace := trace w2 @ [Info_script_done, BZ2File_close]\<rparr>))"
      by (simp add: generic_processor_loop total_batches_empty)
    with loop(2) Returned show ?thesis
      by (intro exI [of _ "Returned (w2\<lparr>trace := trace w2 @ [Info_script_done, BZ2File_close]\<rparr>)"]
          exI [of _ "evs @ [Info_script_done, BZ2File_close]"]) simp
  next
    case (Raised e w2)
    with loop assms have "generic_processor mp mf rf outpath paths B w = Some (Raised e w2)"
      by (simp add: generic_processor_loop total_batches_empty)
    with loop(2,3,4) Raised show ?thesis
      by (intro exI [of _ "Raised e w2"] exI [of _ evs]) simp
  qed
qed

subsection \<open>Two runs on the same identifiers\<close>

lemma loop_body_Inr_other:
  assumes "loop_body mp mf rf out1 B m1 n1 p1 w1 = Inr (n1', p1', w1')"
    and "files w1 out1 = Some c" and "files w2 out2 = Some c"
    and "heap w2 ! p2 = heap w1 ! p1"
  shows "\<exists>n2' p2' w2' c'. loop_body mp mf rf out2 B m2 n2 p2 w2 = Inr (n2', p2', w2')
       \<and> heap w2' ! p2' = heap w1' ! p1'
       \<and> files w1' out1 = Some c' \<and> files w2' out2 = Some c'"
proof (cases "mp (slice_to B (heap w1 ! p1)) mf")
  case (Pair res b')
  show ?thesis
  proof (cases res)
    case (Inl e)
    with Pair assms show ?thesis by (simp add: loop_body_eq Let_def)
  next
    case (Inr r)
    show ?thesis
    proof (cases "rf r c")
      case (Pair err c')
      with \<open>mp (slice_to B (heap w1 ! p1)) mf = (res, b')\<close> Inr assms show ?thesis
        by (cases err) (auto simp: loop_body_eq Let_def sink_Some nth_append)
    qed
  qed
qed

lemma batch_loop_other:
  fixes w1 :: "('a, 'r) world"
  assumes "batch_loop mp mf rf out1 B m1 n1 p1 w1 = Some out"
  shows "\<forall>w1' c m2 n2 p2 w2. out = Returned w1' \<longrightarrow> files w1 out1 = Some c \<longrightarrow>
       files w2 out2 = Some c \<longrightarrow> heap w2 ! p2 = heap w1 ! p1 \<longrightarrow>
       (\<exists>w2'. batch_loop mp mf rf out2 B m2 n2 p2 w2 = Some (Returned w2')
          \<and> files w2' out2 = files w1' out1)"
  using assms
proof (induction rule: batch_loop_induct)
  case (Raise n p w out)
  from loop_body_Inl [OF this] show ?case by auto
next
  case (Last n p w n' p' w')
  show ?case
  proof (intro allI impI)
    fix w1' c m2 n2 p2 and w2 :: "('a, 'r) world"
    assume eq: "Returned w' = Returned w1'" and c: "files w out1 = Some c"
      "files w2 out2 = Some c" and xs: "heap w2 ! p2 = heap w ! p"
    from loop_body_Inr_other [OF Last(1) c xs, where ?m2.0 = m2 and ?n2.0 = n2] obtain n2' p2' w2' c' where
      b2: "loop_body mp mf rf out2 B m2 n2 p2 w2 = Inr (n2', p2', w2')"
        "heap w2' ! p2' = heap w' ! p'" "files w' out1 = Some c'" "files w2' out2 = Some c'"
      by blast
    from b2(1,2) Last(2) have "batch_loop mp mf rf out2 B m2 n2 p2 w2 = Some (Returned w2')"
      by (subst batch_loop.simps) simp
    with b2(3,4) eq show "\<exists>w2'. batch_loop mp mf rf out2 B m2 n2 p2 w2 = Some (Returned w2')
          \<and> files w2' out2 = files w1' out1"
      by auto
  qed
next
  case (Next n p w n' p' w' out)
  show ?case
  proof (intro allI impI)
    fix w1' c m2 n2 p2 and w2 :: "('a, 'r) world"
    assume eq: "out = Returned w1'" and c: "files w out1 = Some c"
      "files w2 out2 = Some c" and xs: "heap w2 ! p2 = heap w ! p"
    from loop_body_Inr_other [OF Next.hyps(1) c xs, where ?m2.0 = m2 and ?n2.0 = n2] obtain n2' p2' w2' c' where
      b2: "loop_body mp mf rf out2 B m2 n2 p2 w2 = Inr (n2', p2', w2')"
        "heap w2' ! p2' = heap w' ! p'" "files w' out1 = Some c'" "files w2' out2 = Some c'"
      by blast
    from Next.IH eq b2(2,3,4) obtain w2'' where
      r2: "batch_loop mp mf rf out2 B m2 n2' p2' w2' = Some (Returned w2'')"
        "files w2'' out2 = files w1' out1"
      by blast
    from b2(1,2) Next.hyps(2) r2(1)
    have "batch_loop mp mf rf out2 B m2 n2 p2 w2 = Some (Returned w2'')"
      by (subst batch_loop.simps) simp
    with r2(2) show "\<exists>w2'. batch_loop mp mf rf out2 B m2 n2 p2 w2 = Some (Returned w2')
          \<and> files w2' out2 = files w1' out1"
      by auto
  qed
qed

subsection \<open>The first passes of a run\<close>

lemma sink_after_Suc:
  assumes "sink_after mp mf rf B xs (Suc k) = Some c'"
  obtains c r b' where "sink_after mp mf rf B xs k = Some c"
    and "mp (nth_batch B xs k) mf = (Inr r, b')" and "rf r c = (None, c')"
  using assms
  by (auto split: option.splits prod.splits sum.splits)

lemma batch_loop_unroll:
  assumes start: "files w outpath = Some []"
    and more: "\<forall>j<k. (slice_from B ^^ Suc j) (heap w ! p) \<noteq> []"
    and sink: "sink_after mp mf rf B (heap w ! p) k = Some c"
  shows "\<exists>wk pk evs. batch_loop mp mf rf outpath B m 0 p w =
           batch_loop mp mf rf outpath B m k pk wk
       \<and> heap wk ! pk = (slice_from B ^^ k) (heap w ! p)
       \<and> files wk = (files w)(outpath \<mapsto> c)
       \<and> trace wk = trace w @ evs
       \<and> batches evs = map (nth_batch B (heap w ! p)) [0..<k]
       \<and> length (reduced evs) = k
       \<and> (\<forall>e\<in>set evs. \<not> opens_or_closes e)"
  using more sink
proof (induction k arbitrary: c)
  case 0
  then have "c = []" by simp
  with start have "files w = (files w)(outpath \<mapsto> c)" by (simp add: map_upd_triv)
  then show ?case
    by (intro exI [of _ w] exI [of _ p] exI [of _ "[]"]) simp
next
  case (Suc k)
  from Suc.prems(2) obtain c0 r b' where
    c0: "sink_after mp mf rf B (heap w ! p) k = Some c0"
    and mp: "mp (nth_batch B (heap w ! p) k) mf = (Inr r, b')"
    and rf: "rf r c0 = (None, c)"
    by (rule sink_after_Suc)
  from Suc.prems(1) have "\<forall>j<k. (slice_from B ^^ Suc j) (heap w ! p) \<noteq> []" by simp
  from Suc.IH [OF this c0] obtain wk pk evs where
    wk: "batch_loop mp mf rf outpath B m 0 p w = batch_loop mp mf rf outpath B m k pk wk"
      "heap wk ! pk = (slice_from B ^^ k) (heap w ! p)"
      "files wk = (files w)(outpath \<mapsto> c0)"
      "trace wk = trace w @ evs"
      "batches evs = map (nth_batch B (heap w ! p)) [0..<k]"
      "length (reduced evs) = k"
      "\<forall>e\<in>set evs. \<not> opens_or_closes e"
    by blast
  let ?batch = "nth_batch B (heap w ! p) k"
  let ?rest = "(slice_from B ^^ Suc k) (heap w ! p)"
  let ?ev = "[Info_starting_batch (Suc k) m, FeatureReader_multiprocessing (Suc k) ?batch,
              Result_func (Suc k) r, Info_batch_finished (length b'), Debug_filesize outpath]"
  let ?wk' = "wk\<lparr>heap := heap wk @ [b', ?rest], files := (files wk)(outpath \<mapsto> c),
               trace := trace wk @ ?ev\<rparr>"
  from wk(3) have sinkk: "sink wk outpath = c0" by (simp add: sink_def)
  from wk(2) mp rf sinkk
  have body: "loop_body mp mf rf outpath B m k pk wk = Inr (Suc k, Suc (length (heap wk)), ?wk')"
    by (simp add: loop_body_eq nth_batch_def)
  from Suc.prems(1) have ne: "?rest \<noteq> []" by blast
  have "heap ?wk' ! Suc (length (heap wk)) = ?rest" by (simp add: nth_append)
  with body ne have "batch_loop mp mf rf outpath B m k pk wk =
      batch_loop mp mf rf outpath B m (Suc k) (Suc (length (heap wk))) ?wk'"
    by (subst batch_loop.simps) simp
  with wk(1) have 1: "batch_loop mp mf rf outpath B m 0 p w =
      batch_loop mp mf rf outpath B m (Suc k) (Suc (length (heap wk))) ?wk'"
    by simp
  have 2: "heap ?wk' ! Suc (length (heap wk)) = ?rest" by (simp add: nth_append)
  from wk(3) have 3: "files ?wk' = (files w)(outpath \<mapsto> c)" by simp
  from wk(4) have 4: "trace ?wk' = trace w @ (evs @ ?ev)" by simp
  from wk(5) have 5: "batches (evs @ ?ev) = map (nth_batch B (heap w ! p)) [0..<Suc k]"
    by simp
  from wk(6) have 6: "length (reduced (evs @ ?ev)) = Suc k" by simp
  from wk(7) have 7: "\<forall>e\<in>set (evs @ ?ev). \<not> opens_or_closes e" by simp
  from 1 2 3 4 5 6 7 show ?case
    by (intro exI [of _ ?wk'] exI [of _ "Suc (length (heap wk))"] exI [of _ "evs @ ?ev"] conjI)
qed


lemma nth_batch_pos:
  "1 \<le> B \<Longrightarrow> nth_batch B xs k = take (nat B) (drop (k * nat B) xs)"
  by (simp add: nth_batch_def funpow_slice_from slice_to_pos)

subsection \<open>The order of the collaborator calls\<close>

lemma calls_append [simp]: "calls (xs @ ys) = calls xs @ calls ys"
  by (induction xs rule: calls.induct) simp_all

lemma passes_empty [simp]: "passes i i = []"
  by (simp add: passes_def)

lemma passes_Cons: "i < j \<Longrightarrow> passes i j = Map_call i # Reduce_call i # passes (Suc i) j"
  by (simp add: passes_def upt_conv_Cons)

lemma loop_body_Inl_calls:
  assumes "loop_body mp mf rf outpath B m n p w = Inl out"
  shows "\<exists>ev. trace (world_of out) = trace w @ ev
       \<and> (calls ev = [Map_call (Suc n)] \<or> calls ev = [Map_call (Suc n), Reduce_call (Suc n)])"
  using assms
  by (auto simp: loop_body_eq Let_def split: loop_body_splits)

lemma loop_body_Inr_calls:
  assumes "loop_body mp mf rf outpath B m n p w = Inr (n', p', w')"
  shows "\<exists>ev. trace w' = trace w @ ev
       \<and> calls ev = [Map_call (Suc n), Reduce_call (Suc n)]
       \<and> length (batches ev) = 1"
  using assms
  by (auto simp: loop_body_eq Let_def split: loop_body_splits)

lemma batch_loop_calls:
  assumes "batch_loop mp mf rf outpath B m n p w = Some out"
  shows "\<exists>evs N rest. trace (world_of out) = trace w @ evs
       \<and> calls evs = passes (Suc n) (Suc n + N) @ rest
       \<and> (rest = [] \<or> rest = [Map_call (Suc n + N)])
       \<and> (\<forall>w'. out = Returned w' \<longrightarrow> rest = [] \<and> N = length (batches evs))"
  using assms
proof (induction rule: batch_loop_induct)
  case (Raise n p w out)
  from loop_body_Inl [OF Raise] have nr: "\<forall>w'. out \<noteq> Returned w'" by auto
  from loop_body_Inl_calls [OF Raise] obtain ev where
    ev: "trace (world_of out) = trace w @ ev"
      "calls ev = [Map_call (Suc n)] \<or> calls ev = [Map_call (Suc n), Reduce_call (Suc n)]"
    by blast
  from ev(2) show ?case
  proof
    assume "calls ev = [Map_call (Suc n)]"
    with ev(1) nr show ?thesis
      by (intro exI [of _ ev] exI [of _ 0] exI [of _ "[Map_call (Suc n)]"]) simp
  next
    assume "calls ev = [Map_call (Suc n), Reduce_call (Suc n)]"
    with ev(1) nr show ?thesis
      by (intro exI [of _ ev] exI [of _ "Suc 0"] exI [of _ "[]"]) (simp add: passes_Cons)
  qed
next
  case (Last n p w n' p' w')
  from loop_body_Inr_calls [OF Last(1)] obtain ev where
    "trace w' = trace w @ ev" "calls ev = [Map_call (Suc n), Reduce_call (Suc n)]"
    "length (batches ev) = 1"
    by blast
  then show ?case
    by (intro exI [of _ ev] exI [of _ "Suc 0"] exI [of _ "[]"]) (simp add: passes_Cons)
next
  case (Next n p w n' p' w' out)
  from loop_body_Inr(1) [OF Next.hyps(1)] have n': "n' = Suc n" .
  from loop_body_Inr_calls [OF Next.hyps(1)] obtain ev where
    ev: "trace w' = trace w @ ev" "calls ev = [Map_call (Suc n), Reduce_call (Suc n)]"
    "length (batches ev) = 1"
    by blast
  from Next.IH n' obtain evs N rest where
    evs: "trace (world_of out) = trace w' @ evs"
      "calls evs = passes (Suc (Suc n)) (Suc (Suc n) + N) @ rest"
      "rest = [] \<or> rest = [Map_call (Suc (Suc n) + N)]"
      "\<forall>w'. out = Returned w' \<longrightarrow> rest = [] \<and> N = length (batches evs)"
    by auto
  have "passes (Suc n) (Suc n + Suc N) =
      Map_call (Suc n) # Reduce_call (Suc n) # passes (Suc (Suc n)) (Suc (Suc n) + N)"
    by (simp add: passes_Cons)
  with ev evs show ?case
    by (intro exI [of _ "ev @ evs"] exI [of _ "Suc N"] exI [of _ rest]) simp
qed

section \<open>The claims\<close>

text \<open>
  C8. The caller's identifier list is not mutated. The function receives the list by
  reference, only reads it, and binds its local names \<open>batch\<close> and \<open>paths\<close> to freshly
  allocated slices; the reader is handed the fresh batch object, never the caller's
  list. So however the call ends (it returns, or an exception leaves it), every list
  object that existed before the call, the caller's list among them, has the content
  it had, whatever the reader does to the batch objects it receives.
\<close>

theorem generic_processor_leaves_caller_list:
  assumes "generic_processor mp mf rf outpath paths B w = Some out"
    and "paths < length (heap w)"
  shows "heap (world_of out) ! paths = heap w ! paths
       \<and> take (length (heap w)) (heap (world_of out)) = heap w"
proof -
  have "take (length (heap w)) (heap (world_of out)) = heap w"
    using assms(1)
  proof (cases rule: generic_processor_cases)
    case Overflow
    then show ?thesis by simp
  next
    case ZeroDivision
    then show ?thesis by simp
  next
    case (Raised e w2)
    from batch_loop_heap [OF Raised(2)] Raised(3) show ?thesis by simp
  next
    case (Returned w2)
    from batch_loop_heap [OF Returned(2)] Returned(3) show ?thesis by simp
  qed
  moreover from this assms(2) have "heap (world_of out) ! paths = heap w ! paths"
    by (metis nth_take)
  ultimately show ?thesis by simp
qed

theorem generic_processor_leaves_caller_list_witness:
  "\<not> Option.is_none (example_run [1, 2, 3] 2)
   \<and> (0::nat) < length (heap (example_world [1, 2, 3]))
   \<and> heap (world_of (the (example_run [1, 2, 3] 2))) ! 0 = [1, 2, 3]
   \<and> heap (world_of (the (example_run [1, 2, 3] 2))) = [[1, 2, 3], [], [3], [], []]"
proof -
  have some: "\<not> Option.is_none (example_run [1, 2, 3] 2)"
    by code_simp
  then obtain out where out: "example_run [1, 2, 3] 2 = Some out"
    by (auto simp: Option.is_none_def)
  have valid: "(0::nat) < length (heap (example_world [1, 2, 3]))"
    by (simp add: example_world_def)
  from generic_processor_leaves_caller_list
    [OF out [unfolded example_run_def] valid]
  have "heap (world_of out) ! 0 = [1, 2, 3]"
    by (simp add: example_world_def)
  moreover have "heap (world_of (the (example_run [1, 2, 3] 2))) = [[1, 2, 3], [], [3], [], []]"
    by code_simp
  ultimately show ?thesis using some valid out by simp
qed

text \<open>
  C9, as amended. Some runs never return, but not those with \<open>batch_size = 0\<close>: there
  \<open>float(len(paths))/batch_size\<close> raises \<open>ZeroDivisionError\<close> before the loop is entered,
  the sink having been opened and nothing else done; and a \<open>batch_size\<close> too large in
  magnitude to be converted to a float raises \<open>OverflowError\<close> at the same place. The
  runs that never return are those with a negative \<open>batch_size\<close> that converts to a
  float and a non-empty list: \<open>paths[batch_size:]\<close> is then never empty, so such a run
  never returns normally, and it runs forever unless a collaborator raises. For every
  list and every \<open>batch_size \<ge> 1\<close> the run ends.
\<close>

theorem generic_processor_termination:
  "(B = 0 \<longrightarrow>
      generic_processor mp mf rf outpath paths B w =
        Some (Raised ZeroDivisionError
          (w\<lparr>files := (files w)(outpath \<mapsto> []), trace := trace w @ [BZ2File_open outpath]\<rparr>)))
   \<and> (float_overflows B \<longrightarrow>
      generic_processor mp mf rf outpath paths B w =
        Some (Raised OverflowError
          (w\<lparr>files := (files w)(outpath \<mapsto> []), trace := trace w @ [BZ2File_open outpath]\<rparr>)))
   \<and> (B < 0 \<and> heap w ! paths \<noteq> [] \<longrightarrow>
        \<not> returned (generic_processor mp mf rf outpath paths B w)
        \<and> (\<not> float_overflows B
             \<and> (\<forall>b. \<exists>r b'. mp b mf = (Inr r, b')) \<and> (\<forall>r c. fst (rf r c) = None) \<longrightarrow>
             generic_processor mp mf rf outpath paths B w = None))
   \<and> (1 \<le> B \<longrightarrow> generic_processor mp mf rf outpath paths B w \<noteq> None)"
proof (intro conjI impI)
  assume "B = 0"
  then show "generic_processor mp mf rf outpath paths B w =
        Some (Raised ZeroDivisionError
          (w\<lparr>files := (files w)(outpath \<mapsto> []), trace := trace w @ [BZ2File_open outpath]\<rparr>))"
    by (simp add: generic_processor_def emit_def)
next
  assume "float_overflows B"
  then show "generic_processor mp mf rf outpath paths B w =
        Some (Raised OverflowError
          (w\<lparr>files := (files w)(outpath \<mapsto> []), trace := trace w @ [BZ2File_open outpath]\<rparr>))"
    by (simp add: generic_processor_def emit_def)
next
  assume neg: "B < 0 \<and> heap w ! paths \<noteq> []"
  show nr: "\<not> returned (generic_processor mp mf rf outpath paths B w)"
  proof
    assume "returned (generic_processor mp mf rf outpath paths B w)"
    then obtain w' where "generic_processor mp mf rf outpath paths B w = Some (Returned w')"
      by (cases "generic_processor mp mf rf outpath paths B w" rule: returned.cases) simp_all
    then show False
    proof (cases rule: generic_processor_cases)
      case (Returned w2)
      from batch_loop_negative [OF Returned(2)] neg show False by simp
    qed simp_all
  qed
  assume total: "\<not> float_overflows B
    \<and> (\<forall>b. \<exists>r b'. mp b mf = (Inr r, b')) \<and> (\<forall>r c. fst (rf r c) = None)"
  show "generic_processor mp mf rf outpath paths B w = None"
  proof (rule ccontr)
    assume "generic_processor mp mf rf outpath paths B w \<noteq> None"
    then obtain out where run: "generic_processor mp mf rf outpath paths B w = Some out"
      by blast
    then show False
    proof (cases rule: generic_processor_cases)
      case Overflow
      with total show False by simp
    next
      case ZeroDivision
      with neg show False by simp
    next
      case (Raised e w2)
      from batch_loop_Raised [OF Raised(2)] obtain e' where
        "(\<exists>b b'. mp b mf = (Inl e', b')) \<or> (\<exists>r c c'. rf r c = (Some e', c'))"
        by blast
      then show False
      proof
        assume "\<exists>b b'. mp b mf = (Inl e', b')"
        then obtain b b' where "mp b mf = (Inl e', b')" by blast
        moreover from total obtain r b'' where "mp b mf = (Inr r, b'')" by blast
        ultimately show False by simp
      next
        assume "\<exists>r c c'. rf r c = (Some e', c')"
        then obtain r c c' where "rf r c = (Some e', c')" by blast
        moreover from total have "fst (rf r c) = None" by blast
        ultimately show False by simp
      qed
    next
      case (Returned w2)
      with nr run show False by simp
    qed
  qed
next
  assume pos: "1 \<le> B"
  show "generic_processor mp mf rf outpath paths B w \<noteq> None"
  proof (cases "float_overflows B")
    case True
    then show ?thesis by (simp add: generic_processor_def emit_def)
  next
    case False
    have "\<exists>out.
      batch_loop mp mf rf outpath B (total_batches (length (heap w ! paths)) B) 0 paths
        (w\<lparr>files := (files w)(outpath \<mapsto> []),
           trace := trace w @ [BZ2File_open outpath, Info_script_started]\<rparr>) = Some out"
      by (rule batch_loop_terminates [OF pos])
    then obtain out where
      "batch_loop mp mf rf outpath B (total_batches (length (heap w ! paths)) B) 0 paths
        (w\<lparr>files := (files w)(outpath \<mapsto> []),
           trace := trace w @ [BZ2File_open outpath, Info_script_started]\<rparr>) = Some out"
      by blast
    with pos False show ?thesis
      by (cases out) (simp_all add: generic_processor_loop)
  qed
qed

theorem generic_processor_termination_witness:
  "generic_processor example_total_reader example_map_func example_reducer ''out.bz2'' 0 0
     (example_world [1, 2, 3]) =
     Some (Raised ZeroDivisionError
       ((example_world [1, 2, 3])
          \<lparr>files := (files (example_world [1, 2, 3]))(''out.bz2'' \<mapsto> []),
           trace := trace (example_world [1, 2, 3]) @ [BZ2File_open ''out.bz2'']\<rparr>))
   \<and> generic_processor example_total_reader example_map_func example_reducer ''out.bz2'' 0
       (- (2 ^ 1024)) (example_world [1, 2, 3]) =
     Some (Raised OverflowError
       ((example_world [1, 2, 3])
          \<lparr>files := (files (example_world [1, 2, 3]))(''out.bz2'' \<mapsto> []),
           trace := trace (example_world [1, 2, 3]) @ [BZ2File_open ''out.bz2'']\<rparr>))
   \<and> generic_processor example_total_reader example_map_func example_reducer ''out.bz2'' 0
       (- 1) (example_world [1, 2, 3]) = None
   \<and> generic_processor example_total_reader example_map_func example_reducer ''out.bz2'' 0 2
       (example_world [1, 2, 3]) \<noteq> None"
  using
    generic_processor_termination [where B = 0 and mp = example_total_reader
      and mf = example_map_func and rf = example_reducer and outpath = "''out.bz2''"
      and paths = 0 and w = "example_world [1, 2, 3]"]
    generic_processor_termination [where B = "- (2 ^ 1024)" and mp = example_total_reader
      and mf = example_map_func and rf = example_reducer and outpath = "''out.bz2''"
      and paths = 0 and w = "example_world [1, 2, 3]"]
    generic_processor_termination [where B = "- 1" and mp = example_total_reader
      and mf = example_map_func and rf = example_reducer and outpath = "''out.bz2''"
      and paths = 0 and w = "example_world [1, 2, 3]"]
    generic_processor_termination [where B = 2 and mp = example_total_reader
      and mf = example_map_func and rf = example_reducer and outpath = "''out.bz2''"
      and paths = 0 and w = "example_world [1, 2, 3]"]
  by (simp add: example_world_def example_total_reader_def example_reducer_def
      float_overflows_def)

theorem batch_size_zero_raises_counterexample:
  "raised (example_run [1, 2, 3] 0) = Some ZeroDivisionError
   \<and> trace (world_of (the (example_run [1, 2, 3] 0))) = [BZ2File_open ''out.bz2'']"
  by code_simp

text \<open>
  C4. The sink is opened once, written by \<open>result_func\<close> only, and closed once. However
  a call ends, the calls it has made begin with the one opening of \<open>outpath\<close> in write
  mode, which truncates the file; no later call opens or closes a file until, when
  the function returns, the one \<open>f.close()\<close> ends the trace, after the last batch. The
  payload of the file is then what the \<open>result_func\<close> calls of the run have written,
  one after the other, starting from the empty file; there is one such call per
  batch handed to the reader when the function returns, and at most one when an
  exception ends the run. No other file is touched.
\<close>

theorem sink_opened_written_closed:
  assumes "generic_processor mp mf rf outpath paths B w = Some out"
  shows "\<exists>mid. trace (world_of out) =
            trace w @ BZ2File_open outpath # mid @
              (if returned (Some out) then [BZ2File_close] else [])
        \<and> (\<forall>e\<in>set mid. \<not> opens_or_closes e)
        \<and> files (world_of out) = (files w)(outpath \<mapsto> written rf (reduced mid) [])
        \<and> length (reduced mid) \<le> length (batches mid)
        \<and> (returned (Some out) \<longrightarrow> length (reduced mid) = length (batches mid))"
  using assms
proof (cases rule: generic_processor_cases)
  case Overflow
  then show ?thesis by (intro exI [of _ "[]"]) simp
next
  case ZeroDivision
  then show ?thesis by (intro exI [of _ "[]"]) simp
next
  case (Raised e w2)
  let ?w1 = "w\<lparr>files := (files w)(outpath \<mapsto> []),
             trace := trace w @ [BZ2File_open outpath, Info_script_started]\<rparr>"
  have "files ?w1 outpath = Some []" by simp
  with batch_loop_events [OF Raised(2)] obtain evs where
    evs: "trace w2 = trace ?w1 @ evs"
      "\<forall>e\<in>set evs. \<not> opens_or_closes e"
      "files w2 = (files ?w1)(outpath \<mapsto> written rf (reduced evs) [])"
      "length (reduced evs) \<le> length (batches evs)"
    by auto
  with Raised(3) show ?thesis
    by (intro exI [of _ "Info_script_started # evs"]) simp
next
  case (Returned w2)
  let ?w1 = "w\<lparr>files := (files w)(outpath \<mapsto> []),
             trace := trace w @ [BZ2File_open outpath, Info_script_started]\<rparr>"
  have "files ?w1 outpath = Some []" by simp
  with batch_loop_events [OF Returned(2)] obtain evs where
    evs: "trace w2 = trace ?w1 @ evs"
      "\<forall>e\<in>set evs. \<not> opens_or_closes e"
      "files w2 = (files ?w1)(outpath \<mapsto> written rf (reduced evs) [])"
      "length (reduced evs) = length (batches evs)"
    by auto
  with Returned(3) show ?thesis
    by (intro exI [of _ "Info_script_started # evs @ [Info_script_done]"]) simp
qed

theorem sink_opened_written_closed_witness:
  "returned (example_run [1, 2, 3] 2)
   \<and> (\<exists>mid. trace (world_of (the (example_run [1, 2, 3] 2))) =
               BZ2File_open ''out.bz2'' # mid @ [BZ2File_close]
        \<and> \<not> list_ex opens_or_closes mid
        \<and> files (world_of (the (example_run [1, 2, 3] 2))) ''out.bz2'' =
            Some (written example_reducer (reduced mid) [])
        \<and> length (reduced mid) = length (batches mid))
   \<and> files (world_of (the (example_run [1, 2, 3] 2))) ''out.bz2'' = Some ''oe|o|''"
proof -
  have ret: "returned (example_run [1, 2, 3] 2)"
    by code_simp
  then obtain out where out: "example_run [1, 2, 3] 2 = Some out"
    by (cases "example_run [1, 2, 3] 2") simp_all
  from sink_opened_written_closed [OF out [unfolded example_run_def]] ret out
  have "\<exists>mid. trace (world_of (the (example_run [1, 2, 3] 2))) =
               BZ2File_open ''out.bz2'' # mid @ [BZ2File_close]
        \<and> \<not> list_ex opens_or_closes mid
        \<and> files (world_of (the (example_run [1, 2, 3] 2))) ''out.bz2'' =
            Some (written example_reducer (reduced mid) [])
        \<and> length (reduced mid) = length (batches mid)"
    by (auto simp: example_world_def list_ex_iff)
  moreover have "files (world_of (the (example_run [1, 2, 3] 2))) ''out.bz2'' = Some ''oe|o|''"
    by code_simp
  ultimately show ?thesis using ret by simp
qed

text \<open>
  C2. The batches of a run that returns are a contiguous partition of the input, in
  input order: concatenated in the order in which they were handed to the reader they
  give back the identifier list, and batch \<open>k\<close> (counting from 0) is the front slice of
  what is left after \<open>k\<close> slices have been taken off, that is, for a \<open>batch_size\<close> of
  at least 1, the elements at the positions from \<open>k * batch_size\<close> up to
  \<open>(k + 1) * batch_size\<close>.
\<close>

theorem batches_partition_input:
  assumes "generic_processor mp mf rf outpath paths B w = Some (Returned w')"
  shows "concat (batches (run_events w w')) = heap w ! paths
       \<and> (\<forall>k<length (batches (run_events w w')).
            batches (run_events w w') ! k =
              slice_to B ((slice_from B ^^ k) (heap w ! paths)))
       \<and> (1 \<le> B \<longrightarrow>
           (\<forall>k<length (batches (run_events w w')).
              batches (run_events w w') ! k =
                take (nat B) (drop (k * nat B) (heap w ! paths))))"
  using assms
proof (cases rule: generic_processor_cases)
  case (Returned w2)
  let ?w1 = "w\<lparr>files := (files w)(outpath \<mapsto> []),
             trace := trace w @ [BZ2File_open outpath, Info_script_started]\<rparr>"
  from batch_loop_batches [OF Returned(2)] obtain evs where
    evs: "trace w2 = trace ?w1 @ evs" "concat (batches evs) = heap w ! paths"
      "\<forall>k<length (batches evs).
          batches evs ! k = slice_to B ((slice_from B ^^ k) (heap w ! paths))"
    by auto
  from evs(1) Returned(3) have "trace w' =
      trace w @ ([BZ2File_open outpath, Info_script_started] @ evs
        @ [Info_script_done, BZ2File_close])"
    by simp
  from run_events_eq [OF this]
  have "batches (run_events w w') = batches evs" by simp
  with evs(2,3) show ?thesis
    by (simp add: funpow_slice_from slice_to_pos)
qed simp_all

theorem batches_partition_input_witness:
  "returned (example_run [1, 2, 3] 2)
   \<and> concat (batches (run_events (example_world [1, 2, 3])
        (world_of (the (example_run [1, 2, 3] 2))))) = [1, 2, 3]
   \<and> batches (run_events (example_world [1, 2, 3])
        (world_of (the (example_run [1, 2, 3] 2)))) = [[1, 2], [3]]"
proof -
  have ret: "returned (example_run [1, 2, 3] 2)"
    by code_simp
  then obtain w' where run: "example_run [1, 2, 3] 2 = Some (Returned w')"
    by (cases "example_run [1, 2, 3] 2" rule: returned.cases) simp_all
  from batches_partition_input [OF run [unfolded example_run_def]]
  have "concat (batches (run_events (example_world [1, 2, 3]) w')) = [1, 2, 3]"
    by (simp add: example_world_def)
  moreover have "batches (run_events (example_world [1, 2, 3])
        (world_of (the (example_run [1, 2, 3] 2)))) = [[1, 2], [3]]"
    by code_simp
  ultimately show ?thesis using ret run by simp
qed

text \<open>
  C1, as amended. For every non-empty identifier list of length \<open>L\<close> and every batch
  size \<open>B > 0\<close>, a run that returns has handed the reader exactly \<open>ceil(L/B)\<close> batches,
  which is also the total \<open>m\<close> that the function logs; their lengths sum to \<open>L\<close>; every
  batch but the last has length \<open>B\<close>, and the last has length \<open>B\<close> when \<open>B\<close> divides \<open>L\<close>
  and \<open>L mod B\<close> otherwise. (For the empty list the run hands the reader one empty
  batch, see C10.)
\<close>

theorem batch_count_and_sizes:
  assumes "generic_processor mp mf rf outpath paths B w = Some (Returned w')"
    and "1 \<le> B" and "heap w ! paths \<noteq> []"
  shows "length (batches (run_events w w')) = (length (heap w ! paths) + nat B - 1) div nat B
       \<and> int (length (batches (run_events w w'))) = total_batches (length (heap w ! paths)) B
       \<and> sum_list (map length (batches (run_events w w'))) = length (heap w ! paths)
       \<and> (\<forall>k. Suc k < length (batches (run_events w w')) \<longrightarrow>
            length (batches (run_events w w') ! k) = nat B)
       \<and> length (last (batches (run_events w w'))) =
           (if length (heap w ! paths) mod nat B = 0 then nat B
            else length (heap w ! paths) mod nat B)"
  using assms(1)
proof (cases rule: generic_processor_cases)
  case (Returned w2)
  let ?w1 = "w\<lparr>files := (files w)(outpath \<mapsto> []),
             trace := trace w @ [BZ2File_open outpath, Info_script_started]\<rparr>"
  let ?xs = "heap w ! paths"
  from batch_loop_batch_lengths [OF Returned(2) assms(2)] assms(3) obtain evs where
    evs: "trace w2 = trace ?w1 @ evs"
      "length (batches evs) = (length ?xs + nat B - 1) div nat B"
      "\<forall>x\<in>set (butlast (batches evs)). length x = nat B"
      "length (last (batches evs)) =
         (if length ?xs mod nat B = 0 then nat B else length ?xs mod nat B)"
    by auto
  from batch_loop_batches [OF Returned(2)] obtain evs' where
    evs': "trace w2 = trace ?w1 @ evs'" "concat (batches evs') = ?xs"
    by auto
  from evs(1) evs'(1) have same: "evs' = evs" by simp
  from evs(1) Returned(3) have "trace w' =
      trace w @ ([BZ2File_open outpath, Info_script_started] @ evs
        @ [Info_script_done, BZ2File_close])"
    by simp
  from run_events_eq [OF this]
  have bs: "batches (run_events w w') = batches evs" by simp
  have "length (concat (batches evs)) = length ?xs"
    using evs'(2) same by simp
  then have total: "sum_list (map length (batches evs)) = length ?xs"
    by (simp add: length_concat)
  have full: "length (batches evs ! k) = nat B" if "Suc k < length (batches evs)" for k
  proof -
    from that have "k < length (butlast (batches evs))" by simp
    then have "butlast (batches evs) ! k \<in> set (butlast (batches evs))"
      by (rule nth_mem)
    moreover from that have "butlast (batches evs) ! k = batches evs ! k"
      by (simp add: nth_butlast)
    ultimately show ?thesis using evs(3) by auto
  qed
  from evs(2,4) total full bs total_batches_pos [OF assms(2), of "length ?xs"]
  show ?thesis by simp
qed simp_all

theorem batch_count_and_sizes_witness:
  "returned (example_run [1, 2, 3] 2) \<and> (1::int) \<le> 2
   \<and> heap (example_world [1, 2, 3]) ! 0 \<noteq> []
   \<and> length (batches (run_events (example_world [1, 2, 3])
        (world_of (the (example_run [1, 2, 3] 2))))) = 2
   \<and> length (last (batches (run_events (example_world [1, 2, 3])
        (world_of (the (example_run [1, 2, 3] 2)))))) = 1
   \<and> map length (batches (run_events (example_world [1, 2, 3, 4])
        (world_of (the (example_run [1, 2, 3, 4] 2))))) = [2, 2]"
proof -
  have ret: "returned (example_run [1, 2, 3] 2)"
    by code_simp
  then obtain w' where run: "example_run [1, 2, 3] 2 = Some (Returned w')"
    by (cases "example_run [1, 2, 3] 2" rule: returned.cases) simp_all
  have ne: "heap (example_world [1, 2, 3]) ! 0 \<noteq> []"
    by (simp add: example_world_def)
  from batch_count_and_sizes [OF run [unfolded example_run_def] _ ne]
  have "length (batches (run_events (example_world [1, 2, 3]) w')) = 2
      \<and> length (last (batches (run_events (example_world [1, 2, 3]) w'))) = 1"
    by (simp add: example_world_def)
  moreover have "map length (batches (run_events (example_world [1, 2, 3, 4])
        (world_of (the (example_run [1, 2, 3, 4] 2))))) = [2, 2]"
    by code_simp
  ultimately show ?thesis using ret run ne by simp
qed

theorem empty_list_one_batch_counterexample:
  "returned (example_run [] 2)
   \<and> batches (run_events (example_world [])
        (world_of (the (example_run [] 2)))) = [[]]
   \<and> total_batches (length (heap (example_world []) ! 0)) 2 = 0"
  by code_simp

text \<open>
  C10, as amended. Called with an empty identifier list and a \<open>batch_size\<close> that is
  neither 0 nor too large in magnitude to be converted to a float (the default 1000
  is such a size), and with a reader and a \<open>result_func\<close> that return on the empty
  batch, the function does not fail fast. It opens the output file, which truncates
  it, logs the start, and makes exactly one pass with an empty batch: it logs batch 1
  of 0, hands the reader the empty batch, and calls \<open>result_func\<close> once with what the
  reader returned for it; the remaining list being empty, it leaves the loop, closes
  the file and returns normally. The output file then holds what that one
  \<open>result_func\<close> call wrote. (For the two excluded kinds of \<open>batch_size\<close> the division
  raises right after the open, see C9.)
\<close>

theorem empty_list_single_empty_pass:
  assumes "heap w ! paths = []" and "B \<noteq> 0" and "\<not> float_overflows B"
    and "mp [] mf = (Inr r, b')" and "rf r [] = (None, c')"
  shows "generic_processor mp mf rf outpath paths B w =
     Some (Returned
       (w\<lparr>heap := heap w @ [b', []],
          files := (files w)(outpath \<mapsto> c'),
          trace := trace w @
            [BZ2File_open outpath, Info_script_started,
             Info_starting_batch 1 0, FeatureReader_multiprocessing 1 [],
             Result_func 1 r, Info_batch_finished (length b'), Debug_filesize outpath,
             Info_script_done, BZ2File_close]\<rparr>))"
proof -
  let ?w1 = "w\<lparr>files := (files w)(outpath \<mapsto> []),
             trace := trace w @ [BZ2File_open outpath, Info_script_started]\<rparr>"
  let ?w2 = "?w1\<lparr>heap := heap w @ [b', []], files := (files ?w1)(outpath \<mapsto> c'),
             trace := trace ?w1 @
               [Info_starting_batch (Suc 0) 0, FeatureReader_multiprocessing (Suc 0) []] @
               [Result_func (Suc 0) r, Info_batch_finished (length b'),
                Debug_filesize outpath]\<rparr>"
  have "sink ?w1 outpath = []" by (simp add: sink_def)
  with assms have body: "loop_body mp mf rf outpath B 0 0 paths ?w1 =
      Inr (Suc 0, Suc (length (heap w)), ?w2)"
    by (simp add: loop_body_eq slice_Nil)
  have "heap ?w2 ! Suc (length (heap w)) = []"
    by (simp add: nth_append)
  with body have "batch_loop mp mf rf outpath B 0 0 paths ?w1 = Some (Returned ?w2)"
    by (subst batch_loop.simps) simp
  with assms(1,2,3) show ?thesis
    by (simp add: generic_processor_loop total_batches_empty)
qed


theorem empty_list_single_empty_pass_witness:
  "generic_processor_default example_reader example_map_func example_reducer ''out.bz2'' 0
     (example_world []) =
   Some (Returned
     ((example_world [])
        \<lparr>heap := heap (example_world []) @ [[], []],
         files := (files (example_world []))(''out.bz2'' \<mapsto> ''|''),
         trace := trace (example_world []) @
           [BZ2File_open ''out.bz2'', Info_script_started,
            Info_starting_batch 1 0, FeatureReader_multiprocessing 1 [],
            Result_func 1 [], Info_batch_finished (length ([]::nat list)),
            Debug_filesize ''out.bz2'', Info_script_done, BZ2File_close]\<rparr>))"
  using empty_list_single_empty_pass [where w = "example_world []" and paths = 0
      and B = 1000 and mp = example_reader and mf = example_map_func and r = "[]"
      and b' = "[]" and rf = example_reducer and c' = "''|''" and outpath = "''out.bz2''"]
  by (simp add: generic_processor_default_def example_world_def example_reader_def
      example_reducer_def float_overflows_def)

theorem empty_list_bad_batch_size_counterexample:
  "raised (example_run [] 0) = Some ZeroDivisionError
   \<and> raised (example_run [] (2 ^ 1024)) = Some OverflowError
   \<and> calls (trace (world_of (the (example_run [] 0)))) = []
   \<and> trace (world_of (the (example_run [] 0))) = [BZ2File_open ''out.bz2'']
   \<and> trace (world_of (the (example_run [] (2 ^ 1024)))) = [BZ2File_open ''out.bz2'']"
  by (simp add: example_run_def example_world_def generic_processor_def emit_def
      float_overflows_def)

text \<open>
  C6, as amended. The function does not validate its input. When the identifier list
  is empty and \<open>batch_size\<close> is neither 0 nor too large in magnitude to be converted
  to a float, the call ends (it does not hang), it has opened the sink and handed the
  reader one empty batch, and it raises no error of its own: if an exception ends it,
  the exception is a collaborator's. A batch of size 0 is never processed when the
  list is non-empty and \<open>batch_size\<close> is at least 1.
\<close>

theorem no_validation_of_empty_list:
  "(heap w ! paths = [] \<and> B \<noteq> 0 \<and> \<not> float_overflows B \<longrightarrow>
      (\<exists>out evs. generic_processor mp mf rf outpath paths B w = Some out
         \<and> trace (world_of out) = trace w @
             [BZ2File_open outpath, Info_script_started, Info_starting_batch 1 0,
              FeatureReader_multiprocessing 1 []] @ evs
         \<and> raised (Some out) \<noteq> Some ZeroDivisionError
         \<and> raised (Some out) \<noteq> Some OverflowError))
   \<and> (heap w ! paths \<noteq> [] \<and> 1 \<le> B \<longrightarrow>
        (\<forall>out. generic_processor mp mf rf outpath paths B w = Some out \<longrightarrow>
           [] \<notin> set (batches (run_events w (world_of out)))))"
proof (intro conjI impI allI)
  assume "heap w ! paths = [] \<and> B \<noteq> 0 \<and> \<not> float_overflows B"
  then have "heap w ! paths = []" and "B \<noteq> 0" and "\<not> float_overflows B" by simp_all
  then show "\<exists>out evs. generic_processor mp mf rf outpath paths B w = Some out
         \<and> trace (world_of out) = trace w @
             [BZ2File_open outpath, Info_script_started, Info_starting_batch 1 0,
              FeatureReader_multiprocessing 1 []] @ evs
         \<and> raised (Some out) \<noteq> Some ZeroDivisionError
         \<and> raised (Some out) \<noteq> Some OverflowError"
    by (rule empty_list_outcome)
next
  fix out
  assume ne: "heap w ! paths \<noteq> [] \<and> 1 \<le> B"
    and run: "generic_processor mp mf rf outpath paths B w = Some out"
  let ?w1 = "w\<lparr>files := (files w)(outpath \<mapsto> []),
             trace := trace w @ [BZ2File_open outpath, Info_script_started]\<rparr>"
  from ne have pos: "1 \<le> B" and xs: "heap ?w1 ! paths \<noteq> []" by simp_all
  from run show "[] \<notin> set (batches (run_events w (world_of out)))"
  proof (cases rule: generic_processor_cases)
    case Overflow
    then show ?thesis by (simp add: run_events_def)
  next
    case ZeroDivision
    with ne show ?thesis by simp
  next
    case (Raised e w2)
    from batch_loop_nonempty_batches [OF Raised(2) pos] xs obtain evs where
      evs: "trace w2 = trace ?w1 @ evs" "[] \<notin> set (batches evs)" by auto
    from evs(1) Raised(3) have "trace (world_of out) =
        trace w @ ([BZ2File_open outpath, Info_script_started] @ evs)" by simp
    from run_events_eq [OF this] evs(2) show ?thesis by simp
  next
    case (Returned w2)
    from batch_loop_nonempty_batches [OF Returned(2) pos] xs obtain evs where
      evs: "trace w2 = trace ?w1 @ evs" "[] \<notin> set (batches evs)" by auto
    from evs(1) Returned(3) have "trace (world_of out) =
        trace w @ ([BZ2File_open outpath, Info_script_started] @ evs
          @ [Info_script_done, BZ2File_close])" by simp
    from run_events_eq [OF this] evs(2) show ?thesis by simp
  qed
qed

theorem no_validation_of_empty_list_witness:
  "(\<exists>out evs.
      generic_processor example_reader example_map_func example_reducer ''out.bz2'' 0 1000
        (example_world []) = Some out
      \<and> trace (world_of out) = trace (example_world []) @
          [BZ2File_open ''out.bz2'', Info_script_started, Info_starting_batch 1 0,
           FeatureReader_multiprocessing 1 []] @ evs
      \<and> raised (Some out) \<noteq> Some ZeroDivisionError
      \<and> raised (Some out) \<noteq> Some OverflowError)
   \<and> [] \<notin> set (batches (run_events (example_world [1, 2, 3])
        (world_of (the (example_run [1, 2, 3] 2)))))"
proof -
  have "heap (example_world []) ! 0 = [] \<and> (1000::int) \<noteq> 0 \<and> \<not> float_overflows 1000"
    by (simp add: example_world_def float_overflows_def)
  with no_validation_of_empty_list [where w = "example_world []" and paths = 0
      and B = 1000 and mp = example_reader and mf = example_map_func
      and rf = example_reducer and outpath = "''out.bz2''"]
  have 1: "\<exists>out evs.
      generic_processor example_reader example_map_func example_reducer ''out.bz2'' 0 1000
        (example_world []) = Some out
      \<and> trace (world_of out) = trace (example_world []) @
          [BZ2File_open ''out.bz2'', Info_script_started, Info_starting_batch 1 0,
           FeatureReader_multiprocessing 1 []] @ evs
      \<and> raised (Some out) \<noteq> Some ZeroDivisionError
      \<and> raised (Some out) \<noteq> Some OverflowError"
    by simp
  have ne: "heap (example_world [1, 2, 3]) ! 0 \<noteq> [] \<and> (1::int) \<le> 2"
    by (simp add: example_world_def)
  have "\<not> Option.is_none (example_run [1, 2, 3] 2)"
    by code_simp
  then obtain out where out: "example_run [1, 2, 3] 2 = Some out"
    by (auto simp: Option.is_none_def)
  with ne no_validation_of_empty_list [where w = "example_world [1, 2, 3]" and paths = 0
      and B = 2 and mp = example_reader and mf = example_map_func
      and rf = example_reducer and outpath = "''out.bz2''"]
  have "[] \<notin> set (batches (run_events (example_world [1, 2, 3]) (world_of out)))"
    by (simp add: example_run_def)
  with 1 out show ?thesis by simp
qed

theorem empty_list_not_rejected_counterexample:
  "returned (generic_processor_default example_reader example_map_func example_reducer
      ''out.bz2'' 0 (example_world []))
   \<and> trace (world_of (the (generic_processor_default example_reader example_map_func
        example_reducer ''out.bz2'' 0 (example_world [])))) =
       [BZ2File_open ''out.bz2'', Info_script_started, Info_starting_batch 1 0,
        FeatureReader_multiprocessing 1 [], Result_func 1 [], Info_batch_finished 0,
        Debug_filesize ''out.bz2'', Info_script_done, BZ2File_close]
   \<and> files (world_of (the (generic_processor_default example_reader example_map_func
        example_reducer ''out.bz2'' 0 (example_world [])))) ''out.bz2'' = Some ''|''"
  by code_simp

text \<open>
  C7. The run is deterministic in its inputs and its output does not depend on the
  output path. The reader, the mapping function and the reducer being functions of
  their arguments, if a run on some identifiers returns, then a run with the same
  collaborators and batch size on the same identifiers returns as well, whatever
  output path it is given and whatever the files held before, and the payload it
  leaves at its path is the payload the first run left at its own.
\<close>

theorem same_output_at_another_path:
  assumes "generic_processor mp mf rf outpath1 paths1 B w1 = Some (Returned w1')"
    and "heap w2 ! paths2 = heap w1 ! paths1"
  shows "\<exists>w2'. generic_processor mp mf rf outpath2 paths2 B w2 = Some (Returned w2')
       \<and> files w2' outpath2 = files w1' outpath1"
  using assms(1)
proof (cases rule: generic_processor_cases)
  case (Returned w)
  let ?v1 = "w1\<lparr>files := (files w1)(outpath1 \<mapsto> []),
             trace := trace w1 @ [BZ2File_open outpath1, Info_script_started]\<rparr>"
  let ?v2 = "w2\<lparr>files := (files w2)(outpath2 \<mapsto> []),
             trace := trace w2 @ [BZ2File_open outpath2, Info_script_started]\<rparr>"
  have "files ?v1 outpath1 = Some []" "files ?v2 outpath2 = Some []"
    "heap ?v2 ! paths2 = heap ?v1 ! paths1"
    using assms(2) by simp_all
  with batch_loop_other [OF Returned(2), of outpath2] obtain w2' where
    r2: "batch_loop mp mf rf outpath2 B (total_batches (length (heap w2 ! paths2)) B) 0
           paths2 ?v2 = Some (Returned w2')"
      "files w2' outpath2 = files w outpath1"
    by blast
  from r2(1) Returned(1,4) have "generic_processor mp mf rf outpath2 paths2 B w2 =
      Some (Returned (w2'\<lparr>trace := trace w2' @ [Info_script_done, BZ2File_close]\<rparr>))"
    by (simp add: generic_processor_loop)
  with r2(2) Returned(3) show ?thesis by simp
qed simp_all

theorem same_output_at_another_path_witness:
  "returned (example_run [1, 2, 3] 2)
   \<and> returned (generic_processor example_reader example_map_func example_reducer
        ''copy.bz2'' 0 2 (world_of (the (example_run [1, 2, 3] 2))))
   \<and> files (world_of (the (generic_processor example_reader example_map_func example_reducer
        ''copy.bz2'' 0 2 (world_of (the (example_run [1, 2, 3] 2)))))) ''copy.bz2'' =
       files (world_of (the (example_run [1, 2, 3] 2))) ''out.bz2''"
proof -
  have ret: "returned (example_run [1, 2, 3] 2)"
    by code_simp
  then obtain w1' where run: "example_run [1, 2, 3] 2 = Some (Returned w1')"
    by (cases "example_run [1, 2, 3] 2" rule: returned.cases) simp_all
  have "heap (world_of (the (example_run [1, 2, 3] 2))) ! 0 = [1, 2, 3]"
    by code_simp
  with run have same: "heap w1' ! 0 = heap (example_world [1, 2, 3]) ! 0"
    by (simp add: example_world_def)
  from same_output_at_another_path [OF run [unfolded example_run_def] same]
  obtain w2' where
    "generic_processor example_reader example_map_func example_reducer ''copy.bz2'' 0 2 w1' =
       Some (Returned w2')"
    "files w2' ''copy.bz2'' = files w1' ''out.bz2''"
    by blast
  with ret run show ?thesis by simp
qed

text \<open>
  C3. An exception of the reader is not caught. Let \<open>batch_size\<close> be at least 1 and
  convertible to a float, so that the run reaches its batches (otherwise the division
  raises first, see C9). Let \<open>k\<close> batches have been mapped and
  reduced without an exception, leaving the payload \<open>c\<close> in the sink, and let the reader
  raise \<open>e\<close> on the next batch, batch \<open>k + 1\<close> (which exists: \<open>k = 0\<close>, or \<open>k\<close> full batches
  do not exhaust the list). Then the call ends with that very exception; the sink
  holds exactly \<open>c\<close>, the output of the \<open>k\<close> completed batches, and no other file has
  changed; the reader has been called once for each of the batches 1 to \<open>k + 1\<close> and
  not again, so nothing is retried; \<open>result_func\<close> has been called \<open>k\<close> times; and the
  sink has not been closed.
\<close>

theorem reader_error_propagates:
  assumes pos: "1 \<le> B"
    and fits: "\<not> float_overflows B"
    and present: "k = 0 \<or> k * nat B < length (heap w ! paths)"
    and completed: "sink_after mp mf rf B (heap w ! paths) k = Some c"
    and fails: "mp (nth_batch B (heap w ! paths) k) mf = (Inl e, b')"
  shows "\<exists>w'. generic_processor mp mf rf outpath paths B w =
           Some (Raised (Collaborator e) w')
       \<and> files w' = (files w)(outpath \<mapsto> c)
       \<and> batches (run_events w w') = map (nth_batch B (heap w ! paths)) [0..<Suc k]
       \<and> length (reduced (run_events w w')) = k
       \<and> BZ2File_close \<notin> set (run_events w w')"
proof -
  let ?xs = "heap w ! paths"
  let ?m = "total_batches (length ?xs) B"
  let ?w1 = "w\<lparr>files := (files w)(outpath \<mapsto> []),
             trace := trace w @ [BZ2File_open outpath, Info_script_started]\<rparr>"
  have more: "\<forall>j<k. (slice_from B ^^ Suc j) (heap ?w1 ! paths) \<noteq> []"
  proof (intro allI impI)
    fix j
    assume j: "j < k"
    with present have lt: "k * nat B < length ?xs" by simp
    from j have "Suc j * nat B \<le> k * nat B" by (intro mult_le_mono1) simp
    with lt have "Suc j * nat B < length ?xs" by simp
    with pos show "(slice_from B ^^ Suc j) (heap ?w1 ! paths) \<noteq> []"
      by (simp only: funpow_slice_from [of B]) simp
  qed
  have start: "files ?w1 outpath = Some []" by simp
  from completed have done1: "sink_after mp mf rf B (heap ?w1 ! paths) k = Some c" by simp
  from batch_loop_unroll [OF start more done1, of ?m] obtain wk pk evs where
    wk: "batch_loop mp mf rf outpath B ?m 0 paths ?w1 =
           batch_loop mp mf rf outpath B ?m k pk wk"
      "heap wk ! pk = (slice_from B ^^ k) ?xs"
      "files wk = (files ?w1)(outpath \<mapsto> c)"
      "trace wk = trace ?w1 @ evs"
      "batches evs = map (nth_batch B ?xs) [0..<k]"
      "length (reduced evs) = k"
      "\<forall>e\<in>set evs. \<not> opens_or_closes e"
    by auto
  let ?ev = "[Info_starting_batch (Suc k) ?m,
              FeatureReader_multiprocessing (Suc k) (nth_batch B ?xs k)]"
  let ?w' = "wk\<lparr>heap := heap wk @ [b', slice_from B (heap wk ! pk)],
              trace := trace wk @ ?ev\<rparr>"
  from wk(2) fails
  have "loop_body mp mf rf outpath B ?m k pk wk = Inl (Raised (Collaborator e) ?w')"
    by (simp add: loop_body_eq nth_batch_def)
  then have "batch_loop mp mf rf outpath B ?m k pk wk = Some (Raised (Collaborator e) ?w')"
    by (subst batch_loop.simps) simp
  with wk(1) pos fits have run: "generic_processor mp mf rf outpath paths B w =
      Some (Raised (Collaborator e) ?w')"
    by (simp add: generic_processor_loop)
  from wk(4) have "trace ?w' =
      trace w @ ([BZ2File_open outpath, Info_script_started] @ evs @ ?ev)"
    by simp
  from run_events_eq [OF this]
  have ev: "run_events w ?w' = [BZ2File_open outpath, Info_script_started] @ evs @ ?ev" .
  from wk(3) have 2: "files ?w' = (files w)(outpath \<mapsto> c)" by simp
  from wk(5) have 3: "batches (run_events w ?w') = map (nth_batch B ?xs) [0..<Suc k]"
    by (simp add: ev)
  from wk(6) have 4: "length (reduced (run_events w ?w')) = k"
    by (simp add: ev)
  from wk(7) have 5: "BZ2File_close \<notin> set (run_events w ?w')"
    by (auto simp: ev)
  from run 2 3 4 5 show ?thesis
    by (intro exI [of _ ?w'] conjI)
qed


theorem reader_error_propagates_witness:
  "(1::int) \<le> 2
   \<and> \<not> float_overflows 2
   \<and> 1 * nat 2 < length (heap (example_world [1, 2, 3, 0, 5]) ! 0)
   \<and> sink_after example_reader example_map_func example_reducer 2
        (heap (example_world [1, 2, 3, 0, 5]) ! 0) 1 = Some ''oe|''
   \<and> example_reader (nth_batch 2 (heap (example_world [1, 2, 3, 0, 5]) ! 0) 1)
        example_map_func = (Inl ''unreadable'', [3, 0])
   \<and> raised (example_run [1, 2, 3, 0, 5] 2) = Some (Collaborator ''unreadable'')
   \<and> files (world_of (the (example_run [1, 2, 3, 0, 5] 2))) ''out.bz2'' = Some ''oe|''"
proof -
  have h1: "(1::int) \<le> 2" by simp
  have h0: "\<not> float_overflows 2" by (simp add: float_overflows_def)
  have h2: "1 * nat 2 < length (heap (example_world [1, 2, 3, 0, 5]) ! 0)"
    by (simp add: example_world_def)
  have h3: "sink_after example_reader example_map_func example_reducer 2
        (heap (example_world [1, 2, 3, 0, 5]) ! 0) 1 = Some ''oe|''"
    by code_simp
  have h4: "example_reader (nth_batch 2 (heap (example_world [1, 2, 3, 0, 5]) ! 0) 1)
        example_map_func = (Inl ''unreadable'', [3, 0])"
    by code_simp
  have "\<exists>w'. example_run [1, 2, 3, 0, 5] 2 = Some (Raised (Collaborator ''unreadable'') w')
      \<and> files w' = (files (example_world [1, 2, 3, 0, 5]))(''out.bz2'' \<mapsto> ''oe|'')"
    using reader_error_propagates [where B = 2 and k = 1
        and w = "example_world [1, 2, 3, 0, 5]" and paths = 0 and mp = example_reader
        and mf = example_map_func and rf = example_reducer and c = "''oe|''"
        and e = "''unreadable''" and b' = "[3, 0]" and outpath = "''out.bz2''"]
      h0 h1 h2 h3 h4
    unfolding example_run_def by blast
  then obtain w' where
    "example_run [1, 2, 3, 0, 5] 2 = Some (Raised (Collaborator ''unreadable'') w')"
    "files w' = (files (example_world [1, 2, 3, 0, 5]))(''out.bz2'' \<mapsto> ''oe|'')"
    by blast
  with h0 h1 h2 h3 h4 show ?thesis by simp
qed

text \<open>
  C5. Batches are processed strictly one after the other. Both collaborators are
  called synchronously, as in the source, where \<open>results\<close> is bound before
  \<open>result_func(results, f)\<close> is evaluated and the next pass starts only after that call
  has returned. However a call of \<open>generic_processor\<close> ends, the collaborator calls it has
  made are, in order: the reader for batch 1, \<open>result_func\<close> for batch 1, the reader
  for batch 2, \<open>result_func\<close> for batch 2, and so on, followed at most by the one reader
  call on which an exception ended the run. So the \<open>result_func\<close> call of batch \<open>k\<close> has
  returned before the reader is called for batch \<open>k + 1\<close>, and the passes of a run
  that returns are as many as its batches.
\<close>

theorem batches_strictly_sequential:
  assumes "generic_processor mp mf rf outpath paths B w = Some out"
  shows "\<exists>N rest. calls (run_events w (world_of out)) = passes 1 (Suc N) @ rest
       \<and> (rest = [] \<or> rest = [Map_call (Suc N)])
       \<and> (returned (Some out) \<longrightarrow>
            rest = [] \<and> N = length (batches (run_events w (world_of out))))"
  using assms
proof (cases rule: generic_processor_cases)
  case Overflow
  then have "run_events w (world_of out) = [BZ2File_open outpath]"
    by (simp add: run_events_def)
  with Overflow show ?thesis
    by (intro exI [of _ 0] exI [of _ "[]"]) simp
next
  case ZeroDivision
  then have "run_events w (world_of out) = [BZ2File_open outpath]"
    by (simp add: run_events_def)
  with ZeroDivision show ?thesis
    by (intro exI [of _ 0] exI [of _ "[]"]) simp
next
  case (Raised e w2)
  let ?w1 = "w\<lparr>files := (files w)(outpath \<mapsto> []),
             trace := trace w @ [BZ2File_open outpath, Info_script_started]\<rparr>"
  from batch_loop_calls [OF Raised(2)] obtain evs N rest where
    evs: "trace w2 = trace ?w1 @ evs" "calls evs = passes 1 (Suc N) @ rest"
      "rest = [] \<or> rest = [Map_call (Suc N)]"
    by auto
  from evs(1) Raised(3) have "trace (world_of out) =
      trace w @ ([BZ2File_open outpath, Info_script_started] @ evs)" by simp
  from run_events_eq [OF this] evs(2)
  have "calls (run_events w (world_of out)) = passes 1 (Suc N) @ rest" by simp
  with evs(3) Raised(3) show ?thesis
    by (intro exI [of _ N] exI [of _ rest]) simp
next
  case (Returned w2)
  let ?w1 = "w\<lparr>files := (files w)(outpath \<mapsto> []),
             trace := trace w @ [BZ2File_open outpath, Info_script_started]\<rparr>"
  from batch_loop_calls [OF Returned(2)] obtain evs N where
    evs: "trace w2 = trace ?w1 @ evs" "calls evs = passes 1 (Suc N)"
      "N = length (batches evs)"
    by auto
  from evs(1) Returned(3) have "trace (world_of out) =
      trace w @ ([BZ2File_open outpath, Info_script_started] @ evs
        @ [Info_script_done, BZ2File_close])" by simp
  from run_events_eq [OF this] evs(2,3)
  have "calls (run_events w (world_of out)) = passes 1 (Suc N)"
    "N = length (batches (run_events w (world_of out)))" by simp_all
  then show ?thesis
    by (intro exI [of _ N] exI [of _ "[]"]) simp
qed

theorem batches_strictly_sequential_witness:
  "returned (example_run [1, 2, 3] 2)
   \<and> calls (run_events (example_world [1, 2, 3]) (world_of (the (example_run [1, 2, 3] 2)))) =
       [Map_call 1, Reduce_call 1, Map_call 2, Reduce_call 2]
   \<and> calls (run_events (example_world [1, 2, 3, 0, 5])
        (world_of (the (example_run [1, 2, 3, 0, 5] 2)))) =
       [Map_call 1, Reduce_call 1, Map_call 2]"
proof -
  have ret: "returned (example_run [1, 2, 3] 2)"
    by code_simp
  then obtain out where out: "example_run [1, 2, 3] 2 = Some out"
    by (cases "example_run [1, 2, 3] 2") simp_all
  have two: "length (batches (run_events (example_world [1, 2, 3])
      (world_of (the (example_run [1, 2, 3] 2))))) = 2"
    by code_simp
  from batches_strictly_sequential [OF out [unfolded example_run_def]] ret out two
  have "calls (run_events (example_world [1, 2, 3]) (world_of out)) = passes 1 (Suc 2)"
    by auto
  also have "\<dots> = [Map_call 1, Reduce_call 1, Map_call 2, Reduce_call 2]"
    by code_simp
  finally have "calls (run_events (example_world [1, 2, 3]) (world_of out)) =
      [Map_call 1, Reduce_call 1, Map_call 2, Reduce_call 2]" .
  moreover have "calls (run_events (example_world [1, 2, 3, 0, 5])
        (world_of (the (example_run [1, 2, 3, 0, 5] 2)))) =
       [Map_call 1, Reduce_call 1, Map_call 2]"
    by code_simp
  ultimately show ?thesis using ret out by simp
qed

end
